theory Spec2Isabelle
  imports Main "HOL-Library.Product_Lexorder" "HOL-Library.List_Lexorder" "HOL-Library.Char_ord"
begin

section \<open>The notification system (core/notification_system.py)\<close>

text \<open>
  A Python \<open>str\<close> is a \<open>string\<close>, one \<open>char\<close> per code point (Latin-1 covers every
  character of the enum values below; titles and bodies are only concatenated).
  The enum members carry their French values; \<open>0xE9\<close> is e-acute.
\<close>

datatype EmergencyType = WEATHER | SECURITY | HEALTH | INFRASTRUCTURE | ACADEMIC

datatype Priority = CRITICAL | HIGH | MEDIUM | LOW

fun EmergencyType_value :: "EmergencyType \<Rightarrow> string" where
  "EmergencyType_value WEATHER = ''m'' @ [CHR 0xE9] @ ''t'' @ [CHR 0xE9] @ ''o''"
| "EmergencyType_value SECURITY = ''s'' @ [CHR 0xE9] @ ''curit'' @ [CHR 0xE9]"
| "EmergencyType_value HEALTH = ''sant'' @ [CHR 0xE9]"
| "EmergencyType_value INFRASTRUCTURE = ''infrastructure''"
| "EmergencyType_value ACADEMIC = ''acad'' @ [CHR 0xE9] @ ''mique''"

fun Priority_value :: "Priority \<Rightarrow> int" where
  "Priority_value CRITICAL = 4"
| "Priority_value HIGH = 3"
| "Priority_value MEDIUM = 2"
| "Priority_value LOW = 1"

fun Priority_name :: "Priority \<Rightarrow> string" where
  "Priority_name CRITICAL = ''CRITICAL''"
| "Priority_name HIGH = ''HIGH''"
| "Priority_name MEDIUM = ''MEDIUM''"
| "Priority_name LOW = ''LOW''"

text \<open>
  \<open>get_priority\<close> takes any object; the argument is \<open>Some\<close> enum member, or \<open>None\<close> for
  a value that is no member (Python's \<open>None\<close>, an unrecognised tag). The chain of
  comparisons is the source's.
\<close>

definition get_priority :: "EmergencyType option \<Rightarrow> Priority" where
  "get_priority emergency_type =
     (if emergency_type \<in> set [Some SECURITY, Some HEALTH] then CRITICAL
      else if emergency_type = Some WEATHER then HIGH
      else if emergency_type = Some INFRASTRUCTURE then MEDIUM
      else LOW)"

text \<open>
  \<open>str.upper\<close> on the characters that occur here: ASCII letters and the Latin-1
  letters \<open>0xE0..0xFE\<close> (without the division sign \<open>0xF7\<close>) move down by 32.
\<close>

definition upper_char :: "char \<Rightarrow> char" where
  "upper_char c =
     (let n = (of_char c :: nat)
      in if (97 \<le> n \<and> n \<le> 122) \<or> (224 \<le> n \<and> n \<le> 254 \<and> n \<noteq> 247)
         then char_of (n - 32) else c)"

definition upper :: "string \<Rightarrow> string" where
  "upper s = map upper_char s"

subsection \<open>Errors, results and the notifier's state\<close>

text \<open>
  Every exception of the source is an \<open>Exception\<close> with a message; the model keeps one
  constructor per raise site:
  \<^item> \<open>CircuitOpen\<close>: \<open>Exception("Circuit ouvert : trop d'echecs recents")\<close> in \<open>notify\<close>;
  \<^item> \<open>SendFailed ch\<close>: \<open>Exception("Echec d'envoi ...")\<close> in the sender of channel \<open>ch\<close>;
  \<^item> \<open>ArchiveFailed\<close>: whatever the storage collaborator raises in
    \<open>archive_notification\<close> (re-raised after the rollback);
  \<^item> \<open>AttributeError\<close>: \<open>.value\<close> or \<open>.get\<close> on \<open>None\<close>.
\<close>

datatype py_error = CircuitOpen | SendFailed string | ArchiveFailed | AttributeError

text \<open>
  What a caller can pass as \<open>emergency_type\<close> to \<open>format_message\<close>: an enum member,
  \<open>None\<close>, or a value that is no member; of the latter the raw tag string of the web
  layer is modelled (\<open>send_notification_sync\<close> receives the type as a \<open>str\<close>). A member
  is truthy, \<open>None\<close> is not, a \<open>str\<close> is truthy when it is not empty; a \<open>str\<close> has no
  attribute \<open>value\<close>.
\<close>

datatype emergency_arg = Member EmergencyType | PyNone | Tag string

fun truthy :: "emergency_arg \<Rightarrow> bool" where
  "truthy (Member et) = True"
| "truthy PyNone = False"
| "truthy (Tag s) = (s \<noteq> [])"

text \<open>
  \<open>FormattingMixin.format_message\<close>: \<open>formatted = f"{title}\n{body}"\<close>, and under
  \<open>if emergency_type:\<close> the bracketed \<open>emergency_type.value.upper()\<close> is put in front.
\<close>

definition format_message :: "string \<Rightarrow> string \<Rightarrow> emergency_arg \<Rightarrow> py_error + string" where
  "format_message title body emergency_type =
     (let formatted = title @ [CHR 0x0A] @ body
      in if truthy emergency_type then
           (case emergency_type of
              Member et \<Rightarrow> Inr (''['' @ upper (EmergencyType_value et) @ ''] '' @ formatted)
            | PyNone \<Rightarrow> Inl AttributeError
            | Tag s \<Rightarrow> Inl AttributeError)
         else Inr formatted)"

text \<open>
  \<open>notify\<close> is called with an enum member (or \<open>None\<close>); this is what it hands on to
  \<open>format_message\<close>.
\<close>

fun arg_of :: "EmergencyType option \<Rightarrow> emergency_arg" where
  "arg_of None = PyNone"
| "arg_of (Some et) = Member et"

text \<open>The dict a sender returns: keys \<open>status\<close>, \<open>channel\<close>, \<open>recipient\<close>, \<open>message\<close>.\<close>

record delivery =
  r_status :: string
  r_channel :: string
  r_recipient :: string
  r_message :: string

text \<open>
  The user dict of \<open>User.to_dict\<close>. \<open>u_phone = None\<close> is a missing key or a \<open>None\<close> value;
  \<open>u_prefers_email = None\<close> is a missing key (\<open>user.get('prefers_email', True)\<close> then
  gives \<open>True\<close>), \<open>Some b\<close> a present value of truthiness \<open>b\<close>.
\<close>

record user =
  u_id :: string
  u_email :: string
  u_phone :: "string option"
  u_prefers_email :: "bool option"

text \<open>The \<open>notification_data\<close> dict built by \<open>notify\<close>.\<close>

record notification_data =
  nd_user_id :: string
  nd_title :: string
  nd_body :: string
  nd_emergency_type :: string
  nd_priority :: string
  nd_results :: "delivery option list"
  nd_notification_id :: "nat option"

text \<open>The row \<open>archive_notification\<close> stores through the \<open>Notification\<close> model.\<close>

record notification_row =
  row_user_id :: string
  row_title :: string
  row_body :: string
  row_emergency_type :: string
  row_priority :: string
  row_channels :: string

text \<open>
  The \<open>AcademicNotifier\<close> instance with the attributes the class decorators add, and
  the environment it acts on:
  \<^item> \<open>rand_fails k\<close>: the \<open>k\<close>-th \<open>random.random() < 0.1\<close> of the run is true (that send
    attempt raises); \<open>draws\<close> counts the draws so far, that is the underlying send
    attempts;
  \<^item> \<open>attempts\<close>: the channel and recipient of every underlying send attempt, in order;
  \<^item> \<open>commit_fails k\<close>: the \<open>k\<close>-th call of the storage collaborator raises;
    \<open>archive_calls\<close> counts the calls; \<open>db\<close> holds the committed rows.
  A timestamp is an \<open>int\<close>, the microseconds since an epoch; durations of
  \<open>time.time()\<close> are left out of the metrics, which keep the method names.
\<close>

record notifier =
  circuit_breaker_failures :: int
  circuit_breaker_last_failure :: "int option"
  circuit_breaker_max_failures :: int
  circuit_breaker_timeout :: int
  performance_metrics :: "string list"
  rand_fails :: "nat \<Rightarrow> bool"
  draws :: nat
  attempts :: "(string \<times> string) list"
  commit_fails :: "nat \<Rightarrow> bool"
  archive_calls :: nat
  db :: "notification_row list"

subsection \<open>The circuit breaker (core/decorators.py, add_circuit_breaker)\<close>

text \<open>
  \<open>timedelta.seconds\<close>: a timedelta is normalised to days, seconds in \<open>0..86399\<close> and
  microseconds in \<open>0..999999\<close>; \<open>.seconds\<close> is the middle component, not the total.
\<close>

definition timedelta_seconds :: "int \<Rightarrow> int" where
  "timedelta_seconds delta = (delta div 1000000) mod 86400"

text \<open>
  \<open>is_circuit_open\<close>, with \<open>now\<close> the value \<open>datetime.now()\<close> returns in it. It returns
  the answer and the instance, whose failure count the else branch resets.
\<close>

definition is_circuit_open :: "int \<Rightarrow> notifier \<Rightarrow> bool \<times> notifier" where
  "is_circuit_open now self =
     (if circuit_breaker_failures self \<ge> circuit_breaker_max_failures self then
        (case circuit_breaker_last_failure self of
           Some last_failure \<Rightarrow>
             (let elapsed = timedelta_seconds (now - last_failure)
              in if elapsed < circuit_breaker_timeout self then (True, self)
                 else (False, self\<lparr>circuit_breaker_failures := 0\<rparr>))
         | None \<Rightarrow> (False, self))
      else (False, self))"

definition record_failure :: "int \<Rightarrow> notifier \<Rightarrow> notifier" where
  "record_failure now self =
     self\<lparr>circuit_breaker_failures := circuit_breaker_failures self + 1,
          circuit_breaker_last_failure := Some now\<rparr>"

definition record_success :: "notifier \<Rightarrow> notifier" where
  "record_success self =
     self\<lparr>circuit_breaker_failures := 0, circuit_breaker_last_failure := None\<rparr>"

text \<open>
  \<open>AcademicNotifier()\<close> under \<open>@add_circuit_breaker(max_failures=5, timeout=60)\<close> and
  \<open>@add_performance_tracking\<close>, in a given environment.
\<close>

definition AcademicNotifier :: "(nat \<Rightarrow> bool) \<Rightarrow> (nat \<Rightarrow> bool) \<Rightarrow> notifier" where
  "AcademicNotifier rf cf =
     \<lparr>circuit_breaker_failures = 0, circuit_breaker_last_failure = None,
      circuit_breaker_max_failures = 5, circuit_breaker_timeout = 60,
      performance_metrics = [], rand_fails = rf, draws = 0, attempts = [],
      commit_fails = cf, archive_calls = 0, db = []\<rparr>"

subsection \<open>Channel senders and their retry decorator\<close>

text \<open>
  \<open>retry_on_failure(retries)\<close>: \<open>for attempt in range(1, retries + 1)\<close>, return the
  first result, re-raise the exception of attempt \<open>retries\<close>, and \<open>return None\<close> when the
  range is empty. There is no sleep between two attempts.
\<close>

function retry_loop ::
  "int \<Rightarrow> ('s \<Rightarrow> (py_error + 'a) \<times> 's) \<Rightarrow> int \<Rightarrow> 's \<Rightarrow> (py_error + 'a option) \<times> 's" where
  "retry_loop retries func attempt s =
     (if attempt \<ge> retries + 1 then (Inr None, s)
      else (case func s of
              (Inr r, s') \<Rightarrow> (Inr (Some r), s')
            | (Inl e, s') \<Rightarrow>
                if attempt = retries then (Inl e, s')
                else retry_loop retries func (attempt + 1) s'))"
  by pat_completeness auto
termination
  by (relation "measure (\<lambda>(retries, func, attempt, s). nat (retries + 1 - attempt))") auto

definition retry_on_failure ::
  "int \<Rightarrow> ('s \<Rightarrow> (py_error + 'a) \<times> 's) \<Rightarrow> 's \<Rightarrow> (py_error + 'a option) \<times> 's" where
  "retry_on_failure retries func s = retry_loop retries func 1 s"

text \<open>
  One underlying attempt of a channel: the draw, then either the exception or the
  result dict and the metric. The three mixins differ in the channel name, the
  exception and the metric's method name.
\<close>

definition send_once ::
  "string \<Rightarrow> string \<Rightarrow> string \<Rightarrow> string \<Rightarrow> notifier \<Rightarrow> (py_error + delivery) \<times> notifier" where
  "send_once chan method message recipient self =
     (let failed = rand_fails self (draws self);
          self1 = self\<lparr>draws := draws self + 1,
                       attempts := attempts self @ [(chan, recipient)]\<rparr>
      in if failed then (Inl (SendFailed chan), self1)
         else (Inr \<lparr>r_status = ''success'', r_channel = chan,
                     r_recipient = recipient, r_message = message\<rparr>,
               self1\<lparr>performance_metrics := performance_metrics self1 @ [method]\<rparr>))"

definition send_sms :: "string \<Rightarrow> string \<Rightarrow> notifier \<Rightarrow> (py_error + delivery option) \<times> notifier" where
  "send_sms message number self =
     retry_on_failure 3 (send_once ''SMS'' ''send_sms'' message number) self"

definition send_email :: "string \<Rightarrow> string \<Rightarrow> notifier \<Rightarrow> (py_error + delivery option) \<times> notifier" where
  "send_email message email self =
     retry_on_failure 3 (send_once ''Email'' ''send_email'' message email) self"

definition send_push :: "string \<Rightarrow> string \<Rightarrow> notifier \<Rightarrow> (py_error + delivery option) \<times> notifier" where
  "send_push message user_id self =
     retry_on_failure 3 (send_once ''Push'' ''send_push'' message user_id) self"

subsection \<open>AcademicNotifier: channel fan-out, archiving, notify\<close>

text \<open>
  \<open>send_all_channels\<close>: email, then push, then SMS under
  \<open>if 'phone' in user and user['phone']\<close>; each call sits in its own \<open>try\<close> whose
  handler only prints, so a failed channel adds nothing to \<open>results\<close>.
\<close>

definition send_all_channels ::
  "string \<Rightarrow> user \<Rightarrow> notifier \<Rightarrow> delivery option list \<times> notifier" where
  "send_all_channels message usr self =
     (let (r1, self1) = send_email message (u_email usr) self;
          results1 = (case r1 of Inr d \<Rightarrow> [d] | Inl e \<Rightarrow> []);
          (r2, self2) = send_push message (u_id usr) self1;
          results2 = (case r2 of Inr d \<Rightarrow> results1 @ [d] | Inl e \<Rightarrow> results1)
      in case u_phone usr of
           None \<Rightarrow> (results2, self2)
         | Some phone \<Rightarrow>
             if phone = [] then (results2, self2)
             else (let (r3, self3) = send_sms message phone self2
                   in ((case r3 of Inr d \<Rightarrow> results2 @ [d] | Inl e \<Rightarrow> results2), self3)))"

definition prefers_email :: "user \<Rightarrow> bool" where
  "prefers_email usr = (case u_prefers_email usr of None \<Rightarrow> True | Some b \<Rightarrow> b)"

fun join :: "string \<Rightarrow> string list \<Rightarrow> string" where
  "join sep [] = []"
| "join sep [x] = x"
| "join sep (x # y # ys) = x @ sep @ join sep (y # ys)"

text \<open>
  \<open>archive_notification\<close>: the comma-joined channels of the successful results (a
  \<open>None\<close> among the results fails at \<open>r.get\<close>), then the row is added and committed by
  the storage collaborator. When the collaborator raises, the session is rolled back
  (no row is kept) and the exception is raised again. The id the database gives the
  row is modelled as its position in the table.
\<close>

definition archive_notification ::
  "notification_data \<Rightarrow> notifier \<Rightarrow> (py_error + notification_data) \<times> notifier" where
  "archive_notification data self =
     (if None \<in> set (nd_results data) then (Inl AttributeError, self)
      else
        (let channels = join '','' [r_channel r. Some r \<leftarrow> nd_results data, r_status r = ''success''];
             notification = \<lparr>row_user_id = nd_user_id data, row_title = nd_title data,
                             row_body = nd_body data,
                             row_emergency_type = nd_emergency_type data,
                             row_priority = nd_priority data, row_channels = channels\<rparr>;
             failed = commit_fails self (archive_calls self);
             self1 = self\<lparr>archive_calls := archive_calls self + 1\<rparr>
         in if failed then (Inl ArchiveFailed, self1)
            else (let self2 = self1\<lparr>db := db self1 @ [notification]\<rparr>
                  in (Inr (data\<lparr>nd_notification_id := Some (length (db self2))\<rparr>), self2))))"

text \<open>
  The body of the \<open>try\<close> block of \<open>notify\<close>, up to and including \<open>record_success\<close>.
\<close>

definition notify_try ::
  "user \<Rightarrow> string \<Rightarrow> string \<Rightarrow> EmergencyType option \<Rightarrow> notifier
     \<Rightarrow> (py_error + notification_data) \<times> notifier" where
  "notify_try usr title body emergency_type self =
     (let priority = get_priority emergency_type
      in case format_message title body (arg_of emergency_type) of
           Inl e \<Rightarrow> (Inl e, self)
         | Inr message \<Rightarrow>
            (let (sent, self1) =
                   (if priority = CRITICAL then
                      (let (results, s) = send_all_channels message usr self in (Inr results, s))
                    else if prefers_email usr then
                      (case send_email message (u_email usr) self of
                         (Inr d, s) \<Rightarrow> (Inr [d], s) | (Inl e, s) \<Rightarrow> (Inl e, s))
                    else
                      (case send_push message (u_id usr) self of
                         (Inr d, s) \<Rightarrow> (Inr [d], s) | (Inl e, s) \<Rightarrow> (Inl e, s)))
             in case sent of
                  Inl e \<Rightarrow> (Inl e, self1)
                | Inr results \<Rightarrow>
                    (case emergency_type of
                       None \<Rightarrow> (Inl AttributeError, self1)
                     | Some et \<Rightarrow>
                         (let notification_data =
                                \<lparr>nd_user_id = u_id usr, nd_title = title, nd_body = body,
                                 nd_emergency_type = EmergencyType_value et,
                                 nd_priority = Priority_name priority,
                                 nd_results = results, nd_notification_id = None\<rparr>
                          in case archive_notification notification_data self1 of
                               (Inl e, self2) \<Rightarrow> (Inl e, self2)
                             | (Inr data, self2) \<Rightarrow> (Inr data, record_success self2)))))"

text \<open>
  \<open>notify\<close>: the circuit check stands before the \<open>try\<close>; the handler of the \<open>try\<close>
  records a failure and raises again. \<open>t_check\<close> and \<open>t_fail\<close> are the values of
  \<open>datetime.now()\<close> in \<open>is_circuit_open\<close> and in \<open>record_failure\<close>.
\<close>

definition notify ::
  "int \<Rightarrow> int \<Rightarrow> user \<Rightarrow> string \<Rightarrow> string \<Rightarrow> EmergencyType option \<Rightarrow> notifier
     \<Rightarrow> (py_error + notification_data) \<times> notifier" where
  "notify t_check t_fail usr title body emergency_type self =
     (case is_circuit_open t_check self of
        (True, self0) \<Rightarrow> (Inl CircuitOpen, self0)
      | (False, self0) \<Rightarrow>
          (case notify_try usr title body emergency_type self0 of
             (Inr data, self1) \<Rightarrow> (Inr data, self1)
           | (Inl e, self1) \<Rightarrow> (Inl e, record_failure t_fail self1)))"

text \<open>The message of a notify call, for the statements below.\<close>

definition message_of :: "string \<Rightarrow> string \<Rightarrow> EmergencyType option \<Rightarrow> string" where
  "message_of title body emergency_type =
     (case emergency_type of
        None \<Rightarrow> title @ [CHR 0x0A] @ body
      | Some et \<Rightarrow> ''['' @ upper (EmergencyType_value et) @ ''] '' @ title @ [CHR 0x0A] @ body)"

subsection \<open>Reading the random draws\<close>

text \<open>
  For the statements below: the number of underlying attempts a retried send makes
  from the state \<open>self\<close> (it stops at the first draw that does not fail, after three at
  the latest), and whether all three of its draws fail.
\<close>

definition tries :: "notifier \<Rightarrow> nat" where
  "tries self = (if \<not> rand_fails self (draws self) then 1
                 else if \<not> rand_fails self (draws self + 1) then 2 else 3)"

definition all_fail :: "notifier \<Rightarrow> bool" where
  "all_fail self = (rand_fails self (draws self) \<and> rand_fails self (draws self + 1)
                    \<and> rand_fails self (draws self + 2))"

text \<open>The forced-failing and the never-failing environment.\<close>

definition always_fails :: "nat \<Rightarrow> bool" where
  "always_fails k = True"

definition never_fails :: "nat \<Rightarrow> bool" where
  "never_fails k = False"

text \<open>
  An environment whose first three draws fail, and one whose first draw alone fails.
\<close>

definition fails_thrice :: "nat \<Rightarrow> bool" where
  "fails_thrice k = (k < 3)"

definition fails_once :: "nat \<Rightarrow> bool" where
  "fails_once k = (k = 0)"

subsection \<open>Reading the log of attempts\<close>

text \<open>
  The channels on which a call made at least one underlying attempt, in the order of
  their first attempt: the entries the call added to \<open>attempts\<close>, without repetitions.
\<close>

definition channels_attempted :: "notifier \<Rightarrow> notifier \<Rightarrow> string list" where
  "channels_attempted before after =
     remdups (map fst (drop (length (attempts before)) (attempts after)))"

definition example_user :: user where
  "example_user = \<lparr>u_id = ''7'', u_email = ''ada@example.org'',
                    u_phone = Some ''+33612345678'', u_prefers_email = Some True\<rparr>"

definition push_user :: user where
  "push_user = \<lparr>u_id = ''8'', u_email = ''bob@example.org'',
                 u_phone = None, u_prefers_email = Some False\<rparr>"

subsection \<open>Two notifier states for the examples\<close>

text \<open>
  \<open>tripped\<close>: five failures recorded at time 0, every send failing;
  \<open>archive_down\<close>: every send succeeds and every archiving call raises;
  \<open>archive_down_retry\<close>: the same, but the first send attempt fails.
\<close>

definition tripped :: notifier where
  "tripped = (AcademicNotifier always_fails never_fails)
               \<lparr>circuit_breaker_failures := 5, circuit_breaker_last_failure := Some 0\<rparr>"

definition archive_down :: notifier where
  "archive_down = AcademicNotifier never_fails always_fails"

definition archive_down_retry :: notifier where
  "archive_down_retry = AcademicNotifier fails_once always_fails"

subsection \<open>Repeated notify calls\<close>

text \<open>
  A caller that calls \<open>notify\<close> with the same arguments once per pair of clock
  readings, catching each exception: the results in order and the final notifier.
\<close>

fun notify_calls ::
  "(int \<times> int) list \<Rightarrow> user \<Rightarrow> string \<Rightarrow> string \<Rightarrow> EmergencyType option \<Rightarrow> notifier
     \<Rightarrow> (py_error + notification_data) list \<times> notifier" where
  "notify_calls [] usr title body emergency_type self = ([], self)"
| "notify_calls ((t_check, t_fail) # ts) usr title body emergency_type self =
     (let (r, self1) = notify t_check t_fail usr title body emergency_type self;
          (rs, self2) = notify_calls ts usr title body emergency_type self1
      in (r # rs, self2))"

text \<open>The one channel (and recipient) of a call that is not CRITICAL.\<close>

definition preferred_channel :: "user \<Rightarrow> string \<times> string" where
  "preferred_channel usr =
     (if prefers_email usr then (''Email'', u_email usr) else (''Push'', u_id usr))"

subsection \<open>A breaker with five failures on record\<close>

text \<open>
  Five \<open>record_failure\<close> calls on a new notifier, one second apart; the last at 4 s.
\<close>

definition five_failures :: notifier where
  "five_failures = fold record_failure [0, 1000000, 2000000, 3000000, 4000000]
                     (AcademicNotifier never_fails never_fails)"

section \<open>The task queues (core/queue.py)\<close>

datatype TaskStatus = PENDING | RUNNING | COMPLETED | FAILED | RETRYING

text \<open>
  \<open>QueuedTask\<close>. The callable with its stored \<open>args\<close> and \<open>kwargs\<close> is one field: a call
  \<open>task.func(*task.args, **task.kwargs)\<close> acts on an environment \<open>'e\<close> and either returns
  a value (\<open>Inr\<close>) or raises an \<open>Exception\<close> (\<open>Inl\<close> of its \<open>str\<close>). Work functions do not
  reach into the queue that runs them.
\<close>

record ('e, 'r) QueuedTask =
  task_id :: string
  func :: "'e \<Rightarrow> (string + 'r) \<times> 'e"
  status :: TaskStatus
  created_at :: int
  started_at :: "int option"
  completed_at :: "int option"
  result :: "'r option"
  error :: "string option"
  retry_count :: int
  max_retries :: int
  priority :: int

text \<open>
  A queue object: the ready queue with items of type \<open>'q\<close>, the registry \<open>tasks\<close>, the
  \<open>running\<close> flag, and next to them the environment of the work functions and the log
  \<open>invoked\<close> of the ids whose work function has been called, in order. One worker
  loop is run; the interleaving of several workers is not part of the model.
\<close>

record ('q, 'e, 'r) task_queue =
  queue :: "'q list"
  tasks :: "string \<rightharpoonup> ('e, 'r) QueuedTask"
  running :: bool
  env :: 'e
  invoked :: "string list"

type_synonym ('e, 'r) AsyncQueue = "(int \<times> string, 'e, 'r) task_queue"

type_synonym ('e, 'r) ThreadPoolQueue = "(string, 'e, 'r) task_queue"

text \<open>
  The new \<open>QueuedTask\<close> of \<open>enqueue\<close>; \<open>now\<close> is the reading of \<open>datetime.now\<close> for
  \<open>created_at\<close>, \<open>new_id\<close> the value of \<open>str(uuid.uuid4())\<close>.
\<close>

definition new_task ::
  "string \<Rightarrow> int \<Rightarrow> ('e \<Rightarrow> (string + 'r) \<times> 'e) \<Rightarrow> int \<Rightarrow> int \<Rightarrow> ('e, 'r) QueuedTask" where
  "new_task new_id now f prio retries =
     \<lparr>task_id = new_id, func = f, status = PENDING, created_at = now,
      started_at = None, completed_at = None, result = None, error = None,
      retry_count = 0, max_retries = retries, priority = prio\<rparr>"

subsection \<open>AsyncQueue\<close>

text \<open>
  \<open>asyncio.PriorityQueue\<close> keeps its items in a heap and \<open>get\<close> pops the least one;
  the items are tuples \<open>(int, str)\<close>, compared lexicographically. The model keeps the
  items in a list and takes the least out of it.
\<close>

definition pq_get :: "('a::linorder) list \<Rightarrow> ('a \<times> 'a list) option" where
  "pq_get q = (case q of [] \<Rightarrow> None
               | x # xs \<Rightarrow> (let m = fold min xs x in Some (m, remove1 m q)))"

definition aq_enqueue ::
  "string \<Rightarrow> int \<Rightarrow> ('e \<Rightarrow> (string + 'r) \<times> 'e) \<Rightarrow> int \<Rightarrow> int \<Rightarrow> ('e, 'r) AsyncQueue
     \<Rightarrow> ('e, 'r) AsyncQueue" where
  "aq_enqueue new_id now f prio retries self =
     self\<lparr>tasks := (tasks self)(new_id \<mapsto> new_task new_id now f prio retries),
          queue := queue self @ [(- prio, new_id)]\<rparr>"

text \<open>
  One iteration of the loop of \<open>AsyncQueue._worker\<close>; \<open>t\<close> holds the two readings of
  \<open>datetime.now\<close> of the iteration. An empty queue is the \<open>TimeoutError\<close> of \<open>wait_for\<close>
  (\<open>continue\<close>), an id that is not registered is skipped.
\<close>

definition aq_worker_step :: "int \<times> int \<Rightarrow> ('e, 'r) AsyncQueue \<Rightarrow> ('e, 'r) AsyncQueue" where
  "aq_worker_step t self =
     (case pq_get (queue self) of
        None \<Rightarrow> self
      | Some ((prio, tid), rest) \<Rightarrow>
          (let self0 = self\<lparr>queue := rest\<rparr>
           in case tasks self0 tid of
                None \<Rightarrow> self0
              | Some task0 \<Rightarrow>
                  (let task1 = task0\<lparr>status := RUNNING, started_at := Some (fst t)\<rparr>;
                       (outcome, env1) = func task1 (env self0);
                       self1 = self0\<lparr>env := env1, invoked := invoked self0 @ [tid]\<rparr>
                   in case outcome of
                        Inr r \<Rightarrow>
                          self1\<lparr>tasks := (tasks self1)(tid \<mapsto>
                                   task1\<lparr>result := Some r, status := COMPLETED,
                                         completed_at := Some (snd t)\<rparr>)\<rparr>
                      | Inl e \<Rightarrow>
                          (let task2 = task1\<lparr>error := Some e,
                                             retry_count := retry_count task1 + 1\<rparr>
                           in if retry_count task2 < max_retries task2 then
                                self1\<lparr>tasks := (tasks self1)(tid \<mapsto> task2\<lparr>status := RETRYING\<rparr>),
                                      queue := queue self1 @ [(- 1, tid)]\<rparr>
                              else
                                self1\<lparr>tasks := (tasks self1)(tid \<mapsto>
                                         task2\<lparr>status := FAILED,
                                               completed_at := Some (snd t)\<rparr>)\<rparr>))))"

text \<open>
  The loop \<open>while self.running\<close>: one iteration per pair of clock readings; the list is
  the part of the run that is observed.
\<close>

fun aq_worker :: "(int \<times> int) list \<Rightarrow> ('e, 'r) AsyncQueue \<Rightarrow> ('e, 'r) AsyncQueue" where
  "aq_worker [] self = self"
| "aq_worker (t # ts) self =
     (if running self then aq_worker ts (aq_worker_step t self) else self)"

subsection \<open>ThreadPoolQueue\<close>

text \<open>
  \<open>queue.Queue\<close> is first-in first-out and its items are the task ids alone; the
  \<open>priority\<close> argument of \<open>enqueue\<close> is stored in the task and nowhere else.
\<close>

definition tq_enqueue ::
  "string \<Rightarrow> int \<Rightarrow> ('e \<Rightarrow> (string + 'r) \<times> 'e) \<Rightarrow> int \<Rightarrow> int \<Rightarrow> ('e, 'r) ThreadPoolQueue
     \<Rightarrow> ('e, 'r) ThreadPoolQueue" where
  "tq_enqueue new_id now f prio retries self =
     self\<lparr>tasks := (tasks self)(new_id \<mapsto> new_task new_id now f prio retries),
          queue := queue self @ [new_id]\<rparr>"

definition tq_worker_step ::
  "int \<times> int \<Rightarrow> ('e, 'r) ThreadPoolQueue \<Rightarrow> ('e, 'r) ThreadPoolQueue" where
  "tq_worker_step t self =
     (case queue self of
        [] \<Rightarrow> self
      | tid # rest \<Rightarrow>
          (let self0 = self\<lparr>queue := rest\<rparr>
           in case tasks self0 tid of
                None \<Rightarrow> self0
              | Some task0 \<Rightarrow>
                  (let task1 = task0\<lparr>status := RUNNING, started_at := Some (fst t)\<rparr>;
                       (outcome, env1) = func task1 (env self0);
                       self1 = self0\<lparr>env := env1, invoked := invoked self0 @ [tid]\<rparr>
                   in case outcome of
                        Inr r \<Rightarrow>
                          self1\<lparr>tasks := (tasks self1)(tid \<mapsto>
                                   task1\<lparr>result := Some r, status := COMPLETED,
                                         completed_at := Some (snd t)\<rparr>)\<rparr>
                      | Inl e \<Rightarrow>
                          (let task2 = task1\<lparr>error := Some e,
                                             retry_count := retry_count task1 + 1\<rparr>
                           in if retry_count task2 < max_retries task2 then
                                self1\<lparr>tasks := (tasks self1)(tid \<mapsto> task2\<lparr>status := RETRYING\<rparr>),
                                      queue := queue self1 @ [tid]\<rparr>
                              else
                                self1\<lparr>tasks := (tasks self1)(tid \<mapsto>
                                         task2\<lparr>status := FAILED,
                                               completed_at := Some (snd t)\<rparr>)\<rparr>))))"

fun tq_worker ::
  "(int \<times> int) list \<Rightarrow> ('e, 'r) ThreadPoolQueue \<Rightarrow> ('e, 'r) ThreadPoolQueue" where
  "tq_worker [] self = self"
| "tq_worker (t # ts) self =
     (if running self then tq_worker ts (tq_worker_step t self) else self)"

subsection \<open>The two workers, seen as one\<close>

text \<open>
  From the lookup of the task on, the two \<open>_worker\<close> bodies are the same but for the
  item they put back on a retry. \<open>run_task\<close> is that common part, \<open>take_item\<close> a worker
  iteration that takes the item \<open>x\<close> (with the task id \<open>key x\<close>) off the ready queue and
  would put \<open>r\<close> back, \<open>requeued\<close> tells whether the task is put back, and
  \<open>iterate_worker\<close> is the loop over any step function. The lemmas \<open>aq_step_take\<close>,
  \<open>tq_step_take\<close>, \<open>aq_worker_iterate\<close> and \<open>tq_worker_iterate\<close> relate them to the
  definitions above.
\<close>

definition run_task ::
  "'q \<Rightarrow> int \<times> int \<Rightarrow> string \<Rightarrow> ('q, 'e, 'r) task_queue \<Rightarrow> ('q, 'e, 'r) task_queue" where
  "run_task retry_item t tid self0 =
     (case tasks self0 tid of
        None \<Rightarrow> self0
      | Some task0 \<Rightarrow>
          (let task1 = task0\<lparr>status := RUNNING, started_at := Some (fst t)\<rparr>;
               (outcome, env1) = func task1 (env self0);
               self1 = self0\<lparr>env := env1, invoked := invoked self0 @ [tid]\<rparr>
           in case outcome of
                Inr r \<Rightarrow>
                  self1\<lparr>tasks := (tasks self1)(tid \<mapsto>
                           task1\<lparr>result := Some r, status := COMPLETED,
                                 completed_at := Some (snd t)\<rparr>)\<rparr>
              | Inl e \<Rightarrow>
                  (let task2 = task1\<lparr>error := Some e,
                                     retry_count := retry_count task1 + 1\<rparr>
                   in if retry_count task2 < max_retries task2 then
                        self1\<lparr>tasks := (tasks self1)(tid \<mapsto> task2\<lparr>status := RETRYING\<rparr>),
                              queue := queue self1 @ [retry_item]\<rparr>
                      else
                        self1\<lparr>tasks := (tasks self1)(tid \<mapsto>
                                 task2\<lparr>status := FAILED,
                                       completed_at := Some (snd t)\<rparr>)\<rparr>)))"

definition take_item ::
  "('q \<Rightarrow> string) \<Rightarrow> 'q \<Rightarrow> 'q \<Rightarrow> int \<times> int \<Rightarrow> ('q, 'e, 'r) task_queue \<Rightarrow> ('q, 'e, 'r) task_queue" where
  "take_item key x r t self = run_task r t (key x) (self\<lparr>queue := remove1 x (queue self)\<rparr>)"

definition requeued :: "string \<Rightarrow> ('q, 'e, 'r) task_queue \<Rightarrow> bool" where
  "requeued tid s =
     (case tasks s tid of None \<Rightarrow> False
      | Some task \<Rightarrow>
          (case fst (func task (env s)) of
             Inr r \<Rightarrow> False
           | Inl m \<Rightarrow> retry_count task + 1 < max_retries task))"

fun iterate_worker ::
  "(int \<times> int \<Rightarrow> ('q, 'e, 'r) task_queue \<Rightarrow> ('q, 'e, 'r) task_queue) \<Rightarrow> (int \<times> int) list
     \<Rightarrow> ('q, 'e, 'r) task_queue \<Rightarrow> ('q, 'e, 'r) task_queue" where
  "iterate_worker step [] s = s"
| "iterate_worker step (t # ts) s =
     (if running s then iterate_worker step ts (step t s) else s)"

text \<open>
  A measure of the work that is left: every item of the ready queue counts one plus
  the retries its task has left. And the two states of a task \<open>a\<close> with
  \<open>max_retries = N\<close> whose work function always raises: it waits on the ready queue
  (once) with fewer than \<open>N\<close> failures, or it is off the queue and FAILED with
  \<open>retry_count = N\<close>; \<open>c\<close> is the number of invocations of \<open>a\<close> logged before it
  was enqueued.
\<close>

definition wt :: "('q, 'e, 'r) task_queue \<Rightarrow> string \<Rightarrow> nat" where
  "wt s a = (case tasks s a of None \<Rightarrow> 0
             | Some task \<Rightarrow> nat (max_retries task - retry_count task))"

definition mu :: "('q \<Rightarrow> string) \<Rightarrow> ('q, 'e, 'r) task_queue \<Rightarrow> nat" where
  "mu key s = sum_list (map (\<lambda>x. Suc (wt s (key x))) (queue s))"

definition waiting ::
  "('q \<Rightarrow> string) \<Rightarrow> string \<Rightarrow> int \<Rightarrow> int \<Rightarrow> ('q, 'e, 'r) task_queue \<Rightarrow> bool" where
  "waiting key a N c s =
     (\<exists>task. tasks s a = Some task \<and> max_retries task = N \<and>
        (\<forall>e. \<exists>m. fst (func task e) = Inl m) \<and>
        length (filter (\<lambda>x. key x = a) (queue s)) = 1 \<and>
        (status task = PENDING \<or> status task = RETRYING) \<and>
        0 \<le> retry_count task \<and> retry_count task < N \<and>
        int (count_list (invoked s) a) = c + retry_count task)"

definition finished ::
  "('q \<Rightarrow> string) \<Rightarrow> string \<Rightarrow> int \<Rightarrow> int \<Rightarrow> ('q, 'e, 'r) task_queue \<Rightarrow> bool" where
  "finished key a N c s =
     (\<exists>task. tasks s a = Some task \<and> max_retries task = N \<and>
        filter (\<lambda>x. key x = a) (queue s) = [] \<and>
        status task = FAILED \<and> retry_count task = N \<and>
        int (count_list (invoked s) a) = c + N)"

subsection \<open>Example queues\<close>

text \<open>
  A work function that raises on every call and counts its calls in the environment;
  an idle, started queue of each design.
\<close>

definition always_raises :: "nat \<Rightarrow> (string + unit) \<times> nat" where
  "always_raises n = (Inl ''boom'', n + 1)"

definition no_tasks :: "string \<rightharpoonup> (nat, unit) QueuedTask" where
  "no_tasks = Map.empty"

definition idle_async :: "(nat, unit) AsyncQueue" where
  "idle_async = \<lparr>queue = [], tasks = no_tasks, running = True, env = 0, invoked = []\<rparr>"

definition idle_pool :: "(nat, unit) ThreadPoolQueue" where
  "idle_pool = \<lparr>queue = [], tasks = no_tasks, running = True, env = 0, invoked = []\<rparr>"

section \<open>Theorems\<close>

text \<open>
  C6. The priority resolver maps SECURITY and HEALTH to CRITICAL, WEATHER to HIGH,
  INFRASTRUCTURE to MEDIUM, ACADEMIC to LOW, and every other argument (anything that
  is none of the four recognised members) to LOW.
\<close>

theorem get_priority_mapping:
  "get_priority (Some SECURITY) = CRITICAL \<and>
   get_priority (Some HEALTH) = CRITICAL \<and>
   get_priority (Some WEATHER) = HIGH \<and>
   get_priority (Some INFRASTRUCTURE) = MEDIUM \<and>
   get_priority (Some ACADEMIC) = LOW \<and>
   (\<forall>e. e \<notin> {Some SECURITY, Some HEALTH, Some WEATHER, Some INFRASTRUCTURE}
        \<longrightarrow> get_priority e = LOW)"
  by (simp add: get_priority_def)

theorem get_priority_mapping_witness:
  "None \<notin> {Some SECURITY, Some HEALTH, Some WEATHER, Some INFRASTRUCTURE} \<and>
   get_priority None = LOW \<and> get_priority (Some SECURITY) = CRITICAL"
  using get_priority_mapping by simp

subsection \<open>The message formatter\<close>




lemma format_message_arg_of [simp]:
  "format_message title body (arg_of et) = Inr (message_of title body et)"
  "format_message title body (Member e) = Inr (message_of title body (Some e))"
  "format_message title body PyNone = Inr (message_of title body None)"
  by (cases et) (simp_all add: format_message_def message_of_def)

subsection \<open>Channel-level retry\<close>

lemma retry3:
  "retry_on_failure 3 f s =
     (case f s of
        (Inr r, s1) \<Rightarrow> (Inr (Some r), s1)
      | (Inl e1, s1) \<Rightarrow>
          (case f s1 of
             (Inr r, s2) \<Rightarrow> (Inr (Some r), s2)
           | (Inl e2, s2) \<Rightarrow>
               (case f s2 of
                  (Inr r, s3) \<Rightarrow> (Inr (Some r), s3)
                | (Inl e3, s3) \<Rightarrow> (Inl e3, s3))))"
  unfolding retry_on_failure_def
  apply (subst retry_loop.simps)
  apply (subst retry_loop.simps)
  apply (subst retry_loop.simps)
  apply (simp split: prod.splits sum.splits)
  done

lemma send_retry:
  "retry_on_failure 3 (send_once chan method message recipient) self =
     (if all_fail self then Inl (SendFailed chan)
      else Inr (Some \<lparr>r_status = ''success'', r_channel = chan,
                       r_recipient = recipient, r_message = message\<rparr>),
      self\<lparr>draws := draws self + tries self,
           attempts := attempts self @ replicate (tries self) (chan, recipient),
           performance_metrics :=
             performance_metrics self @ (if all_fail self then [] else [method])\<rparr>)"
  by (simp add: retry3 send_once_def Let_def tries_def all_fail_def
        numeral_2_eq_2 numeral_3_eq_3)

text \<open>
  C7 (as amended). Each single-channel send (email, SMS, push) is attempted up to three
  times in all, the first attempt and at most two retries, each retry at once after
  the failure: it stops at the first attempt that succeeds and returns that result,
  and the exception escapes only when the third attempt has failed too. \<open>k\<close> is the
  number of draws before the call; the attempts are the draws \<open>k\<close>, \<open>k + 1\<close>,
  \<open>k + 2\<close>, with nothing between them.
\<close>

theorem channel_send_retry:
  "(let k = draws self; f = rand_fails self;
        n = (if \<not> f k then 1 else if \<not> f (k + 1) then 2 else 3);
        exhausted = (f k \<and> f (k + 1) \<and> f (k + 2));
        ok = (\<lambda>chan. Inr (Some \<lparr>r_status = ''success'', r_channel = chan,
                                  r_recipient = rcpt, r_message = message\<rparr>))
    in (fst (send_email message rcpt self) =
          (if exhausted then Inl (SendFailed ''Email'') else ok ''Email'') \<and>
        draws (snd (send_email message rcpt self)) = k + n \<and>
        attempts (snd (send_email message rcpt self)) =
          attempts self @ replicate n (''Email'', rcpt)) \<and>
       (fst (send_sms message rcpt self) =
          (if exhausted then Inl (SendFailed ''SMS'') else ok ''SMS'') \<and>
        draws (snd (send_sms message rcpt self)) = k + n \<and>
        attempts (snd (send_sms message rcpt self)) =
          attempts self @ replicate n (''SMS'', rcpt)) \<and>
       (fst (send_push message rcpt self) =
          (if exhausted then Inl (SendFailed ''Push'') else ok ''Push'') \<and>
        draws (snd (send_push message rcpt self)) = k + n \<and>
        attempts (snd (send_push message rcpt self)) =
          attempts self @ replicate n (''Push'', rcpt)))"
  by (simp add: send_email_def send_sms_def send_push_def send_retry Let_def
        tries_def all_fail_def)

text \<open>
  C7 as stated fails in "retried up to 3 times": \<open>retries = 3\<close> bounds the attempts, not
  the retries after the first attempt. When the first three attempts fail, the
  exception escapes after three draws although a fourth attempt would succeed.
\<close>

theorem third_failure_escapes:
  "fst (send_email ''Alerte'' ''ada@example.org'' (AcademicNotifier fails_thrice never_fails))
     = Inl (SendFailed ''Email'') \<and>
   draws (snd (send_email ''Alerte'' ''ada@example.org''
                 (AcademicNotifier fails_thrice never_fails))) = 3 \<and>
   \<not> fails_thrice 3"
  by (simp add: send_email_def send_retry all_fail_def tries_def AcademicNotifier_def
        fails_thrice_def)

subsection \<open>Which channels a notify call attempts\<close>

lemma remdups_replicate_block:
  "x \<notin> set ys \<Longrightarrow> remdups (replicate (Suc n) x @ ys) = x # remdups ys"
  by (induction n) auto

lemma tries_Suc: "\<exists>n. tries s = Suc n"
  by (simp add: tries_def numeral_2_eq_2 numeral_3_eq_3)

lemma remdups_block1: "remdups (replicate (tries s) x) = [x]"
proof -
  obtain n where "tries s = Suc n" using tries_Suc by blast
  then show ?thesis using remdups_replicate_block [of x "[]" n] by simp
qed

lemma remdups_block:
  "x \<notin> set ys \<Longrightarrow> remdups (replicate (tries s) x @ ys) = x # remdups ys"
proof -
  assume a: "x \<notin> set ys"
  obtain n where "tries s = Suc n" using tries_Suc by blast
  then show ?thesis using remdups_replicate_block [OF a, of n] by simp
qed

lemma is_circuit_open_frame:
  "snd (is_circuit_open t s) = s \<or>
   snd (is_circuit_open t s) = s\<lparr>circuit_breaker_failures := 0\<rparr>"
  by (simp add: is_circuit_open_def Let_def split: option.splits)

lemma attempts_is_circuit_open [simp]: "attempts (snd (is_circuit_open t s)) = attempts s"
  using is_circuit_open_frame [of t s] by auto

lemma attempts_archive [simp]: "attempts (snd (archive_notification d s)) = attempts s"
  by (simp add: archive_notification_def Let_def)

lemma attempts_send_email [simp]:
  "attempts (snd (send_email m e s)) = attempts s @ replicate (tries s) (''Email'', e)"
  by (simp add: send_email_def send_retry)

lemma attempts_send_push [simp]:
  "attempts (snd (send_push m e s)) = attempts s @ replicate (tries s) (''Push'', e)"
  by (simp add: send_push_def send_retry)

lemma attempts_send_sms [simp]:
  "attempts (snd (send_sms m e s)) = attempts s @ replicate (tries s) (''SMS'', e)"
  by (simp add: send_sms_def send_retry)

lemma attempts_send_all:
  "attempts (snd (send_all_channels m u s)) =
     attempts s @ replicate (tries s) (''Email'', u_email u)
       @ replicate (tries (snd (send_email m (u_email u) s))) (''Push'', u_id u)
       @ (case u_phone u of None \<Rightarrow> []
          | Some p \<Rightarrow> if p = [] then []
              else replicate
                     (tries (snd (send_push m (u_id u) (snd (send_email m (u_email u) s)))))
                     (''SMS'', p))"
  by (simp add: send_all_channels_def Let_def case_prod_beta split: option.splits)

lemma attempts_notify_try:
  "attempts (snd (notify_try u title body et s)) =
     (let m = message_of title body et in
      if get_priority et = CRITICAL then attempts (snd (send_all_channels m u s))
      else if prefers_email u then attempts (snd (send_email m (u_email u) s))
      else attempts (snd (send_push m (u_id u) s)))"
  by (simp add: notify_try_def Let_def case_prod_beta record_success_def
        split: sum.splits option.splits prod.splits)

lemma attempts_notify:
  "\<not> fst (is_circuit_open t_check s) \<Longrightarrow>
   attempts (snd (notify t_check t_fail u title body et s)) =
     attempts (snd (notify_try u title body et (snd (is_circuit_open t_check s))))"
  by (cases "is_circuit_open t_check s")
     (simp add: notify_def record_failure_def split: prod.splits sum.splits)

text \<open>
  C5. When the circuit is closed, a notify call of a priority other than CRITICAL
  attempts exactly one channel: email if the user's \<open>prefers_email\<close> flag is true (or
  missing from the dict, which \<open>user.get\<close> reads as true), push if it is false. A
  CRITICAL call attempts email and push always and SMS exactly when the user has a
  non-empty phone number. This holds for every outcome of the draws: a channel that
  fails does not keep the later ones from being attempted.
\<close>

theorem channel_selection:
  assumes "\<not> fst (is_circuit_open t_check self)"
  shows "channels_attempted self (snd (notify t_check t_fail usr title body et self)) =
     (if get_priority et = CRITICAL then
        [''Email'', ''Push''] @
          (case u_phone usr of None \<Rightarrow> [] | Some p \<Rightarrow> if p = [] then [] else [''SMS''])
      else (case u_prefers_email usr of
              Some True \<Rightarrow> [''Email'']
            | Some False \<Rightarrow> [''Push'']
            | None \<Rightarrow> [''Email'']))"
  using assms
  by (simp add: channels_attempted_def attempts_notify attempts_notify_try attempts_send_all
        Let_def remdups_block remdups_block1 prefers_email_def split: option.splits bool.splits)

theorem channel_selection_witness:
  "\<not> fst (is_circuit_open 0 (AcademicNotifier always_fails never_fails)) \<and>
   channels_attempted (AcademicNotifier always_fails never_fails)
     (snd (notify 0 0 push_user ''Note'' ''Cours annule'' (Some WEATHER)
            (AcademicNotifier always_fails never_fails))) = [''Push''] \<and>
   channels_attempted (AcademicNotifier always_fails never_fails)
     (snd (notify 0 0 example_user ''Note'' ''Cours annule'' (Some ACADEMIC)
            (AcademicNotifier always_fails never_fails))) = [''Email''] \<and>
   channels_attempted (AcademicNotifier always_fails never_fails)
     (snd (notify 0 0 example_user ''Alerte'' ''Restez chez vous'' (Some SECURITY)
            (AcademicNotifier always_fails never_fails))) = [''Email'', ''Push'', ''SMS'']"
proof -
  have h: "\<not> fst (is_circuit_open 0 (AcademicNotifier always_fails never_fails))"
    by (simp add: is_circuit_open_def AcademicNotifier_def)
  show ?thesis
    using h
      channel_selection [OF h, of 0 push_user "''Note''" "''Cours annule''" "Some WEATHER"]
      channel_selection [OF h, of 0 example_user "''Note''" "''Cours annule''" "Some ACADEMIC"]
      channel_selection [OF h, of 0 example_user "''Alerte''" "''Restez chez vous''" "Some SECURITY"]
    by (simp add: get_priority_def example_user_def push_user_def)
qed

subsection \<open>Rejection by the open circuit, and archiving failures\<close>

lemma notify_open:
  assumes "fst (is_circuit_open t_check self)"
  shows "notify t_check t_fail usr title body et self = (Inl CircuitOpen, self)"
proof -
  from assms have "is_circuit_open t_check self = (True, self)"
    by (auto simp: is_circuit_open_def Let_def split: if_splits option.splits)
  then show ?thesis by (simp add: notify_def)
qed

text \<open>
  C9. When notify is rejected because the circuit is open, it raises the circuit-open
  error and leaves the notifier as it was: \<open>record_failure\<close> is not called, the
  failure count and the time of the last failure keep their values, and no send is
  attempted.
\<close>

theorem circuit_open_rejection:
  assumes "fst (is_circuit_open t_check self)"
  shows "notify t_check t_fail usr title body et self = (Inl CircuitOpen, self) \<and>
         circuit_breaker_failures (snd (notify t_check t_fail usr title body et self)) =
           circuit_breaker_failures self \<and>
         circuit_breaker_last_failure (snd (notify t_check t_fail usr title body et self)) =
           circuit_breaker_last_failure self \<and>
         draws (snd (notify t_check t_fail usr title body et self)) = draws self"
  using notify_open [OF assms, of t_fail usr title body et] by simp

theorem circuit_open_rejection_witness:
  "fst (is_circuit_open 10000000 tripped) \<and>
   notify 10000000 10000001 example_user ''Alerte'' ''Restez chez vous'' (Some ACADEMIC) tripped
     = (Inl CircuitOpen, tripped) \<and>
   circuit_breaker_failures tripped = 5"
proof -
  have h: "fst (is_circuit_open 10000000 tripped)"
    by (simp add: is_circuit_open_def tripped_def AcademicNotifier_def timedelta_seconds_def)
  show ?thesis
    using h circuit_open_rejection [OF h, of 10000001 example_user "''Alerte''" "''Restez chez vous''" "Some ACADEMIC"]
    by (simp add: tripped_def AcademicNotifier_def)
qed

lemma never_all_fail: "\<forall>k. \<not> rand_fails s k \<Longrightarrow> \<not> all_fail s \<and> tries s = 1"
  by (simp add: all_fail_def tries_def)

lemma always_all_fail: "\<forall>k. rand_fails s k \<Longrightarrow> all_fail s \<and> tries s = 3"
  by (simp add: all_fail_def tries_def)

lemma send_email_eq:
  "send_email message email self =
     (if all_fail self then Inl (SendFailed ''Email'')
      else Inr (Some \<lparr>r_status = ''success'', r_channel = ''Email'',
                       r_recipient = email, r_message = message\<rparr>),
      self\<lparr>draws := draws self + tries self,
           attempts := attempts self @ replicate (tries self) (''Email'', email),
           performance_metrics :=
             performance_metrics self @ (if all_fail self then [] else [''send_email''])\<rparr>)"
  by (simp add: send_email_def send_retry)

lemma send_push_eq:
  "send_push message uid self =
     (if all_fail self then Inl (SendFailed ''Push'')
      else Inr (Some \<lparr>r_status = ''success'', r_channel = ''Push'',
                       r_recipient = uid, r_message = message\<rparr>),
      self\<lparr>draws := draws self + tries self,
           attempts := attempts self @ replicate (tries self) (''Push'', uid),
           performance_metrics :=
             performance_metrics self @ (if all_fail self then [] else [''send_push''])\<rparr>)"
  by (simp add: send_push_def send_retry)

lemma send_sms_eq:
  "send_sms message number self =
     (if all_fail self then Inl (SendFailed ''SMS'')
      else Inr (Some \<lparr>r_status = ''success'', r_channel = ''SMS'',
                       r_recipient = number, r_message = message\<rparr>),
      self\<lparr>draws := draws self + tries self,
           attempts := attempts self @ replicate (tries self) (''SMS'', number),
           performance_metrics :=
             performance_metrics self @ (if all_fail self then [] else [''send_sms''])\<rparr>)"
  by (simp add: send_sms_def send_retry)

text \<open>What the sends leave alone.\<close>

lemma send_email_frame [simp]:
  "rand_fails (snd (send_email m e s)) = rand_fails s"
  "commit_fails (snd (send_email m e s)) = commit_fails s"
  "archive_calls (snd (send_email m e s)) = archive_calls s"
  "db (snd (send_email m e s)) = db s"
  "circuit_breaker_failures (snd (send_email m e s)) = circuit_breaker_failures s"
  "circuit_breaker_last_failure (snd (send_email m e s)) = circuit_breaker_last_failure s"
  "circuit_breaker_max_failures (snd (send_email m e s)) = circuit_breaker_max_failures s"
  "circuit_breaker_timeout (snd (send_email m e s)) = circuit_breaker_timeout s"
  by (simp_all add: send_email_eq)

lemma send_push_frame [simp]:
  "rand_fails (snd (send_push m e s)) = rand_fails s"
  "commit_fails (snd (send_push m e s)) = commit_fails s"
  "archive_calls (snd (send_push m e s)) = archive_calls s"
  "db (snd (send_push m e s)) = db s"
  "circuit_breaker_failures (snd (send_push m e s)) = circuit_breaker_failures s"
  "circuit_breaker_last_failure (snd (send_push m e s)) = circuit_breaker_last_failure s"
  "circuit_breaker_max_failures (snd (send_push m e s)) = circuit_breaker_max_failures s"
  "circuit_breaker_timeout (snd (send_push m e s)) = circuit_breaker_timeout s"
  by (simp_all add: send_push_eq)

lemma send_sms_frame [simp]:
  "rand_fails (snd (send_sms m e s)) = rand_fails s"
  "commit_fails (snd (send_sms m e s)) = commit_fails s"
  "archive_calls (snd (send_sms m e s)) = archive_calls s"
  "db (snd (send_sms m e s)) = db s"
  "circuit_breaker_failures (snd (send_sms m e s)) = circuit_breaker_failures s"
  "circuit_breaker_last_failure (snd (send_sms m e s)) = circuit_breaker_last_failure s"
  "circuit_breaker_max_failures (snd (send_sms m e s)) = circuit_breaker_max_failures s"
  "circuit_breaker_timeout (snd (send_sms m e s)) = circuit_breaker_timeout s"
  by (simp_all add: send_sms_eq)

lemma send_never_None:
  "fst (send_email m e s) \<noteq> Inr None"
  "fst (send_push m e s) \<noteq> Inr None"
  "fst (send_sms m e s) \<noteq> Inr None"
  "Inr None \<noteq> fst (send_email m e s)"
  "Inr None \<noteq> fst (send_push m e s)"
  "Inr None \<noteq> fst (send_sms m e s)"
  by (simp_all add: send_email_eq send_push_eq send_sms_eq)

lemma send_all_frame:
  "rand_fails (snd (send_all_channels m u s)) = rand_fails s \<and>
   commit_fails (snd (send_all_channels m u s)) = commit_fails s \<and>
   archive_calls (snd (send_all_channels m u s)) = archive_calls s \<and>
   db (snd (send_all_channels m u s)) = db s \<and>
   circuit_breaker_failures (snd (send_all_channels m u s)) = circuit_breaker_failures s \<and>
   circuit_breaker_last_failure (snd (send_all_channels m u s)) = circuit_breaker_last_failure s \<and>
   circuit_breaker_max_failures (snd (send_all_channels m u s)) = circuit_breaker_max_failures s \<and>
   circuit_breaker_timeout (snd (send_all_channels m u s)) = circuit_breaker_timeout s"
  by (simp add: send_all_channels_def Let_def case_prod_beta split: option.splits)

lemma send_all_results_Some:
  "None \<notin> set (fst (send_all_channels m u s))"
  by (auto simp: send_all_channels_def Let_def case_prod_beta send_never_None
        split: option.splits sum.splits)

lemma archive_fails_eq:
  "None \<notin> set (nd_results d) \<Longrightarrow> commit_fails s (archive_calls s) \<Longrightarrow>
   archive_notification d s = (Inl ArchiveFailed, s\<lparr>archive_calls := archive_calls s + 1\<rparr>)"
  by (simp add: archive_notification_def Let_def)

lemma notify_try_archive_failed:
  assumes ok: "get_priority (Some e) = CRITICAL \<or> \<not> all_fail s"
      and arch: "commit_fails s (archive_calls s)"
  shows "fst (notify_try u title body (Some e) s) = Inl ArchiveFailed \<and>
         circuit_breaker_failures (snd (notify_try u title body (Some e) s)) =
           circuit_breaker_failures s \<and>
         db (snd (notify_try u title body (Some e) s)) = db s"
proof (cases "get_priority (Some e) = CRITICAL")
  case True
  let ?m = "message_of title body (Some e)"
  let ?r = "send_all_channels ?m u s"
  have a: "commit_fails (snd ?r) (archive_calls (snd ?r))"
    using arch by (simp add: send_all_frame)
  show ?thesis
    using True a
    by (simp add: notify_try_def Let_def case_prod_beta archive_fails_eq
          send_all_results_Some send_all_frame)
next
  case False
  then have "\<not> all_fail s" using ok by blast
  then show ?thesis
    using False arch
    by (simp add: notify_try_def Let_def send_email_eq send_push_eq archive_fails_eq)
qed

lemma is_circuit_open_env [simp]:
  "rand_fails (snd (is_circuit_open t s)) = rand_fails s"
  "commit_fails (snd (is_circuit_open t s)) = commit_fails s"
  "archive_calls (snd (is_circuit_open t s)) = archive_calls s"
  "db (snd (is_circuit_open t s)) = db s"
  "draws (snd (is_circuit_open t s)) = draws s"
  using is_circuit_open_frame [of t s] by auto

lemma notify_closed:
  "\<not> fst (is_circuit_open t_check s) \<Longrightarrow>
   notify t_check t_fail u title body et s =
     (case notify_try u title body et (snd (is_circuit_open t_check s)) of
        (Inr data, s1) \<Rightarrow> (Inr data, s1)
      | (Inl e, s1) \<Rightarrow> (Inl e, record_failure t_fail s1))"
  by (cases "is_circuit_open t_check s") (simp add: notify_def)

text \<open>
  C10. When the circuit is closed, the deliveries of a notify call succeed and the
  archiving step raises, notify raises the archiving error and its handler calls
  \<open>record_failure\<close>, not \<open>record_success\<close>: the failure count grows by one over its value
  after the circuit check and the time of the last failure is set, as after a failed
  delivery; no row is stored. Of the deliveries it is enough that the delivery step
  does not raise: the one send of a call that is not CRITICAL succeeds within its
  three attempts (\<open>\<not> all_fail self\<close>), and a CRITICAL call reaches the archiving step
  whatever its channels do.
\<close>

theorem archive_failure_records_failure:
  assumes closed: "\<not> fst (is_circuit_open t_check self)"
      and delivered: "get_priority (Some e) = CRITICAL \<or> \<not> all_fail self"
      and arch: "commit_fails self (archive_calls self)"
  shows "fst (notify t_check t_fail usr title body (Some e) self) = Inl ArchiveFailed \<and>
         circuit_breaker_failures (snd (notify t_check t_fail usr title body (Some e) self)) =
           circuit_breaker_failures (snd (is_circuit_open t_check self)) + 1 \<and>
         circuit_breaker_last_failure (snd (notify t_check t_fail usr title body (Some e) self)) =
           Some t_fail \<and>
         db (snd (notify t_check t_fail usr title body (Some e) self)) = db self"
proof -
  let ?s0 = "snd (is_circuit_open t_check self)"
  let ?r = "notify_try usr title body (Some e) ?s0"
  have ok: "get_priority (Some e) = CRITICAL \<or> \<not> all_fail ?s0"
    using delivered by (simp add: all_fail_def)
  have ar: "commit_fails ?s0 (archive_calls ?s0)" using arch by simp
  note t = notify_try_archive_failed [OF ok ar, of usr title body]
  obtain r s1 where rs: "?r = (r, s1)" by (cases ?r)
  with t have r: "r = Inl ArchiveFailed"
    and f: "circuit_breaker_failures s1 = circuit_breaker_failures ?s0"
    and d: "db s1 = db self" by simp_all
  have "notify t_check t_fail usr title body (Some e) self =
          (Inl ArchiveFailed, record_failure t_fail s1)"
    using closed rs r by (simp add: notify_closed)
  then show ?thesis using f d by (simp add: record_failure_def)
qed

theorem archive_failure_records_failure_witness:
  "\<not> fst (is_circuit_open 0 archive_down_retry) \<and>
   (get_priority (Some ACADEMIC) = CRITICAL \<or> \<not> all_fail archive_down_retry) \<and>
   rand_fails archive_down_retry (draws archive_down_retry) \<and>
   commit_fails archive_down_retry (archive_calls archive_down_retry) \<and>
   fst (notify 0 1 example_user ''Note'' ''Cours annule'' (Some ACADEMIC) archive_down_retry)
     = Inl ArchiveFailed \<and>
   circuit_breaker_failures
     (snd (notify 0 1 example_user ''Note'' ''Cours annule'' (Some ACADEMIC) archive_down_retry)) = 1 \<and>
   circuit_breaker_last_failure
     (snd (notify 0 1 example_user ''Note'' ''Cours annule'' (Some ACADEMIC) archive_down_retry))
     = Some 1 \<and>
   fst (notify 0 1 example_user ''Alerte'' ''Restez chez vous'' (Some SECURITY) archive_down)
     = Inl ArchiveFailed \<and>
   circuit_breaker_failures
     (snd (notify 0 1 example_user ''Alerte'' ''Restez chez vous'' (Some SECURITY) archive_down)) = 1"
proof -
  have h1: "\<not> fst (is_circuit_open 0 archive_down_retry)"
    by (simp add: is_circuit_open_def archive_down_retry_def AcademicNotifier_def)
  have h2: "get_priority (Some ACADEMIC) = CRITICAL \<or> \<not> all_fail archive_down_retry"
    by (simp add: all_fail_def archive_down_retry_def AcademicNotifier_def fails_once_def)
  have h3: "commit_fails archive_down_retry (archive_calls archive_down_retry)"
    by (simp add: archive_down_retry_def AcademicNotifier_def always_fails_def)
  have h4: "circuit_breaker_failures (snd (is_circuit_open 0 archive_down_retry)) = 0"
    by (simp add: is_circuit_open_def archive_down_retry_def AcademicNotifier_def)
  have h5: "rand_fails archive_down_retry (draws archive_down_retry)"
    by (simp add: archive_down_retry_def AcademicNotifier_def fails_once_def)
  have g1: "\<not> fst (is_circuit_open 0 archive_down)"
    by (simp add: is_circuit_open_def archive_down_def AcademicNotifier_def)
  have g2: "get_priority (Some SECURITY) = CRITICAL \<or> \<not> all_fail archive_down"
    by (simp add: get_priority_def)
  have g3: "commit_fails archive_down (archive_calls archive_down)"
    by (simp add: archive_down_def AcademicNotifier_def always_fails_def)
  have g4: "circuit_breaker_failures (snd (is_circuit_open 0 archive_down)) = 0"
    by (simp add: is_circuit_open_def archive_down_def AcademicNotifier_def)
  show ?thesis
    using h1 h2 h3 h4 h5 g4
      archive_failure_records_failure [OF h1 h2 h3, of 1 example_user "''Note''" "''Cours annule''"]
      archive_failure_records_failure [OF g1 g2 g3, of 1 example_user "''Alerte''" "''Restez chez vous''"]
    by simp
qed

subsection \<open>Five failing calls open the circuit for the sixth\<close>

lemma is_circuit_open_below:
  "circuit_breaker_failures s < circuit_breaker_max_failures s \<Longrightarrow>
   is_circuit_open t s = (False, s)"
  by (simp add: is_circuit_open_def)

lemma notify_try_delivery_fails:
  assumes "\<forall>k. rand_fails s k" and "get_priority et \<noteq> CRITICAL"
  shows "notify_try usr title body et s =
           (Inl (SendFailed (fst (preferred_channel usr))),
            s\<lparr>draws := draws s + 3,
              attempts := attempts s @ replicate 3 (preferred_channel usr)\<rparr>)"
  using assms always_all_fail [OF assms(1)]
  by (simp add: notify_try_def Let_def send_email_eq send_push_eq preferred_channel_def)

lemma notify_fail_step:
  assumes "circuit_breaker_failures s < circuit_breaker_max_failures s"
      and "\<forall>k. rand_fails s k" and "get_priority et \<noteq> CRITICAL"
  shows "notify tc tf usr title body et s =
           (Inl (SendFailed (fst (preferred_channel usr))),
            s\<lparr>draws := draws s + 3,
              attempts := attempts s @ replicate 3 (preferred_channel usr),
              circuit_breaker_failures := circuit_breaker_failures s + 1,
              circuit_breaker_last_failure := Some tf\<rparr>)"
  using assms
  by (simp add: notify_def is_circuit_open_below notify_try_delivery_fails record_failure_def)

lemma timedelta_seconds_small:
  "0 \<le> d \<Longrightarrow> d < 60000000 \<Longrightarrow> timedelta_seconds d < 60"
  unfolding timedelta_seconds_def
proof -
  assume a: "0 \<le> d" "d < 60000000"
  then have "0 \<le> d div 1000000" "d div 1000000 < 60" by auto
  then have "(d div 1000000) mod 86400 = d div 1000000" by simp
  with \<open>d div 1000000 < 60\<close> show "d div 1000000 mod 86400 < 60" by simp
qed

text \<open>
  C3 (as amended). With \<open>max_failures = 5\<close> and a fresh failure count, when notify is
  called six times in a row for a priority other than CRITICAL and every send attempt
  fails, each of the first five calls attempts delivery (three attempts) and raises
  the delivery error; the sixth call, checked within the 60 seconds after the fifth
  failure, raises the circuit-open error without attempting delivery.
\<close>

theorem sixth_call_rejected:
  assumes fresh: "circuit_breaker_failures self = 0"
      and cfg: "circuit_breaker_max_failures self = 5" "circuit_breaker_timeout self = 60"
      and forced: "\<forall>k. rand_fails self k"
      and prio: "get_priority et \<noteq> CRITICAL"
      and window: "f5 \<le> t6" "t6 - f5 < 60000000"
  shows "fst (notify_calls [(t1, f1), (t2, f2), (t3, f3), (t4, f4), (t5, f5), (t6, f6)]
                usr title body et self) =
           replicate 5 (Inl (SendFailed (fst (preferred_channel usr)))) @ [Inl CircuitOpen] \<and>
         draws (snd (notify_calls [(t1, f1), (t2, f2), (t3, f3), (t4, f4), (t5, f5)]
                usr title body et self)) = draws self + 15 \<and>
         draws (snd (notify_calls [(t1, f1), (t2, f2), (t3, f3), (t4, f4), (t5, f5), (t6, f6)]
                usr title body et self)) = draws self + 15"
proof -
  let ?p = "preferred_channel usr"
  let ?e = "Inl (SendFailed (fst ?p)) :: py_error + notification_data"
  define s1 where "s1 = self\<lparr>draws := draws self + 3,
      attempts := attempts self @ replicate 3 ?p,
      circuit_breaker_failures := 1, circuit_breaker_last_failure := Some f1\<rparr>"
  define s2 where "s2 = s1\<lparr>draws := draws s1 + 3,
      attempts := attempts s1 @ replicate 3 ?p,
      circuit_breaker_failures := 2, circuit_breaker_last_failure := Some f2\<rparr>"
  define s3 where "s3 = s2\<lparr>draws := draws s2 + 3,
      attempts := attempts s2 @ replicate 3 ?p,
      circuit_breaker_failures := 3, circuit_breaker_last_failure := Some f3\<rparr>"
  define s4 where "s4 = s3\<lparr>draws := draws s3 + 3,
      attempts := attempts s3 @ replicate 3 ?p,
      circuit_breaker_failures := 4, circuit_breaker_last_failure := Some f4\<rparr>"
  define s5 where "s5 = s4\<lparr>draws := draws s4 + 3,
      attempts := attempts s4 @ replicate 3 ?p,
      circuit_breaker_failures := 5, circuit_breaker_last_failure := Some f5\<rparr>"
  have n1: "notify t1 f1 usr title body et self = (?e, s1)"
    using notify_fail_step [of self et t1 f1 usr title body] fresh cfg forced prio
    by (simp add: s1_def)
  have n2: "notify t2 f2 usr title body et s1 = (?e, s2)"
    using notify_fail_step [of s1 et t2 f2 usr title body] cfg forced prio
    by (simp add: s1_def s2_def)
  have n3: "notify t3 f3 usr title body et s2 = (?e, s3)"
    using notify_fail_step [of s2 et t3 f3 usr title body] cfg forced prio
    by (simp add: s1_def s2_def s3_def)
  have n4: "notify t4 f4 usr title body et s3 = (?e, s4)"
    using notify_fail_step [of s3 et t4 f4 usr title body] cfg forced prio
    by (simp add: s1_def s2_def s3_def s4_def)
  have n5: "notify t5 f5 usr title body et s4 = (?e, s5)"
    using notify_fail_step [of s4 et t5 f5 usr title body] cfg forced prio
    by (simp add: s1_def s2_def s3_def s4_def s5_def)
  have op: "fst (is_circuit_open t6 s5)"
    using timedelta_seconds_small [of "t6 - f5"] window cfg
    by (simp add: is_circuit_open_def s1_def s2_def s3_def s4_def s5_def Let_def)
  have n6: "notify t6 f6 usr title body et s5 = (Inl CircuitOpen, s5)"
    using notify_open [OF op] by simp
  have d5: "draws s5 = draws self + 15"
    by (simp add: s1_def s2_def s3_def s4_def s5_def)
  show ?thesis
    using d5 by (simp add: n1 n2 n3 n4 n5 n6 numeral_eq_Suc)
qed

theorem sixth_call_rejected_witness:
  "circuit_breaker_failures (AcademicNotifier always_fails never_fails) = 0 \<and>
   circuit_breaker_max_failures (AcademicNotifier always_fails never_fails) = 5 \<and>
   circuit_breaker_timeout (AcademicNotifier always_fails never_fails) = 60 \<and>
   (\<forall>k. rand_fails (AcademicNotifier always_fails never_fails) k) \<and>
   get_priority (Some ACADEMIC) \<noteq> CRITICAL \<and> (5::int) \<le> 6 \<and> (6::int) - 5 < 60000000 \<and>
   fst (notify_calls [(0, 1), (1, 2), (2, 3), (3, 4), (4, 5), (6, 7)]
          example_user ''Alerte'' ''Restez chez vous'' (Some ACADEMIC)
          (AcademicNotifier always_fails never_fails)) =
     [Inl (SendFailed ''Email''), Inl (SendFailed ''Email''), Inl (SendFailed ''Email''),
      Inl (SendFailed ''Email''), Inl (SendFailed ''Email''), Inl CircuitOpen]"
proof -
  let ?n = "AcademicNotifier always_fails never_fails"
  have h1: "circuit_breaker_failures ?n = 0" by (simp add: AcademicNotifier_def)
  have h2: "circuit_breaker_max_failures ?n = 5" by (simp add: AcademicNotifier_def)
  have h3: "circuit_breaker_timeout ?n = 60" by (simp add: AcademicNotifier_def)
  have h4: "\<forall>k. rand_fails ?n k" by (simp add: AcademicNotifier_def always_fails_def)
  have h5: "get_priority (Some ACADEMIC) \<noteq> CRITICAL" by (simp add: get_priority_def)
  have h6: "(5::int) \<le> 6" by simp
  have h7: "(6::int) - 5 < 60000000" by simp
  show ?thesis
    using h1 h2 h3 h4 h5
      sixth_call_rejected [OF h1 h2 h3 h4 h5 h6 h7, of 0 1 1 2 2 3 3 4 4 7
        example_user "''Alerte''" "''Restez chez vous''"]
    by (simp add: preferred_channel_def prefers_email_def example_user_def numeral_eq_Suc)
qed

text \<open>
  C3 as stated fails: with \<open>max_failures = 5\<close> and a forced-failing sender, the fifth
  call in a row is not rejected. It attempts delivery (the draws go from 12 to 15) and
  raises the delivery error; four failures are on record when it is checked.
\<close>

theorem fifth_call_not_rejected:
  "fst (notify_calls [(0, 1), (1, 2), (2, 3), (3, 4), (4, 5)]
          example_user ''Alerte'' ''Restez chez vous'' (Some ACADEMIC)
          (AcademicNotifier always_fails never_fails)) ! 4 = Inl (SendFailed ''Email'') \<and>
   fst (notify_calls [(0, 1), (1, 2), (2, 3), (3, 4), (4, 5)]
          example_user ''Alerte'' ''Restez chez vous'' (Some ACADEMIC)
          (AcademicNotifier always_fails never_fails)) ! 4 \<noteq> Inl CircuitOpen \<and>
   draws (snd (notify_calls [(0, 1), (1, 2), (2, 3), (3, 4)]
          example_user ''Alerte'' ''Restez chez vous'' (Some ACADEMIC)
          (AcademicNotifier always_fails never_fails))) = 12 \<and>
   draws (snd (notify_calls [(0, 1), (1, 2), (2, 3), (3, 4), (4, 5)]
          example_user ''Alerte'' ''Restez chez vous'' (Some ACADEMIC)
          (AcademicNotifier always_fails never_fails))) = 15"
  by (simp add: notify_fail_step AcademicNotifier_def always_fails_def get_priority_def
        preferred_channel_def prefers_email_def example_user_def)

text \<open>
  A CRITICAL call is outside C3: \<open>send_all_channels\<close> swallows the failure of every
  channel, so with a forced-failing sender the call still archives (a row with no
  channel) and records a success; the breaker does not open.
\<close>

lemma send_all_all_fail:
  assumes "\<forall>k. rand_fails s k"
  shows "fst (send_all_channels m u s) = []"
proof -
  have a: "all_fail s" using always_all_fail [OF assms] by simp
  let ?s1 = "snd (send_email m (u_email u) s)"
  have "\<forall>k. rand_fails ?s1 k" using assms by simp
  then have b: "all_fail ?s1" using always_all_fail by blast
  let ?s2 = "snd (send_push m (u_id u) ?s1)"
  have "\<forall>k. rand_fails ?s2 k" using assms by simp
  then have c: "all_fail ?s2" using always_all_fail by blast
  have e1: "fst (send_email m (u_email u) s) = Inl (SendFailed ''Email'')"
    using a by (simp add: send_email_eq)
  have e2: "fst (send_push m (u_id u) ?s1) = Inl (SendFailed ''Push'')"
    using b by (simp add: send_push_eq)
  have e3: "\<And>p. fst (send_sms m p ?s2) = Inl (SendFailed ''SMS'')"
    using c by (simp add: send_sms_eq)
  show ?thesis
    by (simp add: send_all_channels_def Let_def case_prod_beta e1 e2 e3 split: option.splits)
qed

lemma critical_call_records_success:
  assumes below: "circuit_breaker_failures s < circuit_breaker_max_failures s"
      and forced: "\<forall>k. rand_fails s k"
      and arch: "\<not> commit_fails s (archive_calls s)"
      and crit: "get_priority (Some e) = CRITICAL"
  shows "\<not> isl (fst (notify tc tf u title body (Some e) s)) \<and>
         circuit_breaker_failures (snd (notify tc tf u title body (Some e) s)) = 0 \<and>
         map row_channels (db (snd (notify tc tf u title body (Some e) s))) =
           map row_channels (db s) @ ['''']"
proof -
  let ?m = "message_of title body (Some e)"
  let ?r = "send_all_channels ?m u s"
  have r: "fst ?r = []" using send_all_all_fail [OF forced] by simp
  have a: "\<not> commit_fails (snd ?r) (archive_calls (snd ?r))"
    using arch by (simp add: send_all_frame)
  have d: "db (snd ?r) = db s" by (simp add: send_all_frame)
  have t: "\<not> isl (fst (notify_try u title body (Some e) s)) \<and>
        circuit_breaker_failures (snd (notify_try u title body (Some e) s)) = 0 \<and>
        map row_channels (db (snd (notify_try u title body (Some e) s))) =
           map row_channels (db s) @ ['''']"
    using crit r a d
    by (simp add: notify_try_def Let_def case_prod_beta archive_notification_def
          record_success_def)
  obtain x s1 where n: "notify_try u title body (Some e) s = (x, s1)"
    by (cases "notify_try u title body (Some e) s")
  with t obtain data where x: "x = Inr data" by (cases x) auto
  show ?thesis
    using t below n x by (simp add: notify_def is_circuit_open_below)
qed

subsection \<open>The circuit breaker over time\<close>

text \<open>
  What holds of the breaker: after enough \<open>record_failure\<close> calls it is open while
  the elapsed time is below the timeout; it closes and resets itself when the elapsed
  time has reached the timeout and is below one day; \<open>record_success\<close> resets it.
\<close>

lemma record_failures_count:
  "circuit_breaker_failures (fold record_failure ts s) = circuit_breaker_failures s + int (length ts)"
  by (induction ts arbitrary: s) (simp_all add: record_failure_def)

lemma record_failures_last:
  "ts \<noteq> [] \<Longrightarrow> circuit_breaker_last_failure (fold record_failure ts s) = Some (last ts)"
  by (induction ts arbitrary: s) (auto simp: record_failure_def)

lemma record_failures_config:
  "circuit_breaker_max_failures (fold record_failure ts s) = circuit_breaker_max_failures s \<and>
   circuit_breaker_timeout (fold record_failure ts s) = circuit_breaker_timeout s"
  by (induction ts arbitrary: s) (simp_all add: record_failure_def)

lemma timedelta_seconds_below:
  assumes "0 \<le> d" and "d < timeout * 1000000"
  shows "timedelta_seconds d < timeout"
proof -
  have a: "0 \<le> d div 1000000" using assms(1) by simp
  have b: "d div 1000000 < timeout" using assms(2) by (simp add: div_less_iff_less_mult)
  have "(d div 1000000) mod 86400 \<le> d div 1000000"
    using a by (rule zmod_le_nonneg_dividend)
  with b show ?thesis by (simp add: timedelta_seconds_def)
qed

lemma open_within_timeout:
  assumes "ts \<noteq> []" and "circuit_breaker_max_failures s \<le> circuit_breaker_failures s + int (length ts)"
      and "0 \<le> now - last ts" and "now - last ts < circuit_breaker_timeout s * 1000000"
  shows "is_circuit_open now (fold record_failure ts s) = (True, fold record_failure ts s)"
  using assms timedelta_seconds_below [OF assms(3,4)]
  by (simp add: is_circuit_open_def record_failures_count record_failures_last
        record_failures_config)

lemma closed_after_timeout_same_day:
  assumes "ts \<noteq> []" and "circuit_breaker_max_failures s \<le> circuit_breaker_failures s + int (length ts)"
      and "circuit_breaker_timeout s * 1000000 \<le> now - last ts"
      and "now - last ts < 86400000000" and "0 \<le> circuit_breaker_timeout s"
  shows "is_circuit_open now (fold record_failure ts s) =
           (False, (fold record_failure ts s)\<lparr>circuit_breaker_failures := 0\<rparr>)"
proof -
  let ?d = "now - last ts"
  have t: "circuit_breaker_timeout s \<le> ?d div 1000000"
    using assms(3) by (simp add: zdiv_mono1 [of "circuit_breaker_timeout s * 1000000" ?d 1000000, simplified])
  have "0 \<le> ?d" using assms(3,5) by (smt (verit) mult_nonneg_nonneg)
  then have "0 \<le> ?d div 1000000" by simp
  moreover have "?d div 1000000 < 86400" using assms(4) by simp
  ultimately have "timedelta_seconds ?d = ?d div 1000000"
    by (simp add: timedelta_seconds_def)
  with t show ?thesis
    using assms(1,2)
    by (simp add: is_circuit_open_def record_failures_count record_failures_last
          record_failures_config)
qed

lemma record_success_resets:
  "circuit_breaker_failures (record_success s) = 0 \<and>
   circuit_breaker_last_failure (record_success s) = None \<and>
   is_circuit_open now (record_success s) = (False, record_success s)"
  by (simp add: record_success_def is_circuit_open_def)

text \<open>
  C2. After \<open>max_failures\<close> consecutive \<open>record_failure\<close> calls the circuit is open
  while the elapsed time since the last failure is below the timeout; once the elapsed
  time exceeds the timeout, \<open>is_circuit_open\<close> resets the failure count and answers
  False; \<open>record_success\<close> resets count and time. The code breaks the second part:
  \<open>is_circuit_open\<close> compares \<open>timedelta.seconds\<close>, the seconds within the day, with
  the timeout. With five failures on record (the last at 4 s) and \<open>timeout = 60\<close>, a
  check one day and ten seconds after the last failure finds an elapsed time far above
  the timeout, and still answers that the circuit is open and keeps the count at 5.
\<close>

theorem circuit_open_again_after_a_day:
  "circuit_breaker_failures five_failures = 5 \<and>
   circuit_breaker_last_failure five_failures = Some 4000000 \<and>
   circuit_breaker_timeout five_failures * 1000000 < 86414000000 - 4000000 \<and>
   is_circuit_open 86414000000 five_failures = (True, five_failures) \<and>
   circuit_breaker_failures (snd (is_circuit_open 86414000000 five_failures)) = 5"
  by (simp add: five_failures_def record_failure_def AcademicNotifier_def
        is_circuit_open_def timedelta_seconds_def)

subsection \<open>The ready queues: what is pushed and what is taken\<close>

lemma pq_get_least:
  assumes "pq_get q = Some (x, rest)"
  shows "x \<in> set q \<and> (\<forall>y \<in> set q. x \<le> y) \<and> rest = remove1 x q"
proof (cases q)
  case Nil
  with assms show ?thesis by (simp add: pq_get_def)
next
  case (Cons z zs)
  have "fold min zs z = Min (set (z # zs))" by (rule Min.set_eq_fold [symmetric])
  with Cons assms have m: "x = Min (set q)" and r: "rest = remove1 x q"
    by (auto simp: pq_get_def Let_def)
  have "Min (set q) \<in> set q" using Cons by (intro Min_in) auto
  moreover have "\<forall>y \<in> set q. Min (set q) \<le> y" by simp
  ultimately show ?thesis using m r by simp
qed

lemma pq_get_single [simp]: "pq_get [x] = Some (x, [])"
  by (simp add: pq_get_def)

lemma aq_first_step:
  assumes "queue self = []" and "a \<noteq> b"
  shows "invoked (aq_worker_step t (aq_enqueue b n2 g 0 r2 (aq_enqueue a n1 f 2 r1 self)))
           = invoked self @ [a] \<and>
         map_option status
           (tasks (aq_worker_step t (aq_enqueue b n2 g 0 r2 (aq_enqueue a n1 f 2 r1 self))) b)
           = Some PENDING"
  using assms
  by (simp add: aq_worker_step_def aq_enqueue_def pq_get_def new_task_def Let_def
        case_prod_beta split: sum.splits)

lemma tq_first_step:
  assumes "queue self = []" and "a \<noteq> b"
  shows "invoked (tq_worker_step t (tq_enqueue b n2 g 0 r2 (tq_enqueue a n1 f 2 r1 self)))
           = invoked self @ [a] \<and>
         map_option status
           (tasks (tq_worker_step t (tq_enqueue b n2 g 0 r2 (tq_enqueue a n1 f 2 r1 self))) b)
           = Some PENDING"
  using assms
  by (simp add: tq_worker_step_def tq_enqueue_def new_task_def Let_def
        case_prod_beta split: sum.splits)

lemma aq_step_run:
  "aq_worker_step t self =
     (case pq_get (queue self) of
        None \<Rightarrow> self
      | Some (x, rest) \<Rightarrow> run_task (- 1, snd x) t (snd x) (self\<lparr>queue := rest\<rparr>))"
  by (simp add: aq_worker_step_def run_task_def Let_def case_prod_beta split: option.splits sum.splits)

lemma tq_step_run:
  "tq_worker_step t self =
     (case queue self of
        [] \<Rightarrow> self
      | x # rest \<Rightarrow> run_task x t x (self\<lparr>queue := rest\<rparr>))"
  by (simp add: tq_worker_step_def run_task_def Let_def case_prod_beta split: list.splits option.splits sum.splits)

lemma aq_step_take:
  "aq_worker_step t self =
     (if queue self = [] then self
      else take_item snd (Min (set (queue self))) (- 1, snd (Min (set (queue self)))) t self)"
proof (cases "queue self")
  case Nil
  then show ?thesis by (simp add: aq_step_run pq_get_def)
next
  case (Cons z zs)
  have "fold min zs z = Min (set (z # zs))" by (rule Min.set_eq_fold [symmetric])
  then have "pq_get (queue self) = Some (Min (set (queue self)), remove1 (Min (set (queue self))) (queue self))"
    using Cons by (simp add: pq_get_def Let_def)
  then show ?thesis using Cons by (simp add: aq_step_run take_item_def)
qed

lemma tq_step_take:
  "tq_worker_step t self =
     (if queue self = [] then self
      else take_item (\<lambda>x. x) (hd (queue self)) (hd (queue self)) t self)"
  by (cases "queue self") (simp_all add: tq_step_run take_item_def)

lemma run_task_running [simp]: "running (run_task r t tid s) = running s"
  by (simp add: run_task_def Let_def case_prod_beta split: option.splits sum.splits)

lemma run_task_other [simp]: "b \<noteq> tid \<Longrightarrow> tasks (run_task r t tid s) b = tasks s b"
  by (simp add: run_task_def Let_def case_prod_beta split: option.splits sum.splits)

lemma run_task_invoked:
  "invoked (run_task r t tid s) = invoked s @ (if tasks s tid = None then [] else [tid])"
  by (simp add: run_task_def Let_def case_prod_beta split: option.splits sum.splits)

lemma run_task_queue:
  "queue (run_task r t tid s) = queue s @ (if requeued tid s then [r] else [])"
  by (simp add: run_task_def requeued_def Let_def case_prod_beta split: option.splits sum.splits)

lemma run_task_None: "tasks s tid = None \<Longrightarrow> run_task r t tid s = s"
  by (simp add: run_task_def)

lemma run_task_fields:
  assumes "tasks s tid = Some task"
  shows "\<exists>task'. tasks (run_task r t tid s) tid = Some task' \<and>
           func task' = func task \<and> max_retries task' = max_retries task \<and>
           retry_count task' =
             (case fst (func task (env s)) of Inr v \<Rightarrow> retry_count task
              | Inl m \<Rightarrow> retry_count task + 1) \<and>
           status task' =
             (case fst (func task (env s)) of Inr v \<Rightarrow> COMPLETED
              | Inl m \<Rightarrow> if retry_count task + 1 < max_retries task then RETRYING else FAILED)"
  using assms
  by (simp add: run_task_def Let_def case_prod_beta split: sum.splits)

lemma tq_head_first:
  assumes "queue st = x # xs" and "tasks st x = Some tk"
  shows "invoked (tq_worker_step t st) = invoked st @ [x]"
  using assms by (simp add: tq_step_run run_task_invoked)

lemma aq_priority_beats_order:
  assumes "queue self = []" and "a \<noteq> b"
  shows "invoked (aq_worker_step t (aq_enqueue b n2 g 2 r2 (aq_enqueue a n1 f 0 r1 self)))
           = invoked self @ [b] \<and>
         map_option status
           (tasks (aq_worker_step t (aq_enqueue b n2 g 2 r2 (aq_enqueue a n1 f 0 r1 self))) a)
           = Some PENDING"
  using assms
  by (simp add: aq_worker_step_def aq_enqueue_def pq_get_def new_task_def Let_def
        case_prod_beta split: sum.splits)

lemma aq_runs_highest_priority:
  assumes ne: "queue sa \<noteq> []"
      and reg: "\<forall>(k, i) \<in> set (queue sa). tasks sa i \<noteq> None"
  shows "\<exists>k i. (k, i) \<in> set (queue sa) \<and> (\<forall>(k', i') \<in> set (queue sa). - k' \<le> - k) \<and>
               invoked (aq_worker_step t sa) = invoked sa @ [i]"
proof -
  obtain k i where x: "Min (set (queue sa)) = (k, i)" by (cases "Min (set (queue sa))")
  have mem: "(k, i) \<in> set (queue sa)"
    using ne Min_in [of "set (queue sa)"] x by simp
  have least: "- k' \<le> - k" if "(k', i') \<in> set (queue sa)" for k' i'
  proof -
    have "Min (set (queue sa)) \<le> (k', i')" using that by simp
    then show ?thesis using x by (auto simp: less_eq_prod_def)
  qed
  have "tasks sa i \<noteq> None" using reg mem by blast
  then have "invoked (aq_worker_step t sa) = invoked sa @ [i]"
    using ne x by (simp add: aq_step_take take_item_def run_task_invoked)
  with mem least show ?thesis by blast
qed

text \<open>
  C4 (as amended). \<open>AsyncQueue.enqueue\<close> pushes \<open>(- priority, task_id)\<close> onto the ready
  queue, and the task an iteration of its worker runs is that of an item with the
  highest numeric priority among the waiting ones: a priority-2 task enqueued after a
  priority-0 task runs first. \<open>ThreadPoolQueue.enqueue\<close> pushes the task id alone and its
  worker runs the oldest item, whatever the priorities. In both designs, on an idle
  queue, a task enqueued with priority 2 and then one enqueued with priority 0: the
  first worker iteration runs the priority-2 task and the other one is still PENDING.
\<close>

theorem enqueue_priority_order:
  assumes idle: "queue qa = []" "queue qt = []" and ids: "a \<noteq> b"
      and ne: "queue sa \<noteq> []"
      and reg: "\<forall>(k, i) \<in> set (queue sa). tasks sa i \<noteq> None"
      and fifo: "queue st = x # xs" "tasks st x = Some tk"
  shows "queue (aq_enqueue a now f p r sa') = queue sa' @ [(- p, a)] \<and>
         (\<exists>k i. (k, i) \<in> set (queue sa) \<and> (\<forall>(k', i') \<in> set (queue sa). - k' \<le> - k) \<and>
                invoked (aq_worker_step t sa) = invoked sa @ [i]) \<and>
         (invoked (aq_worker_step t (aq_enqueue b n2 g 0 r2 (aq_enqueue a n1 f 2 r1 qa)))
            = invoked qa @ [a] \<and>
          map_option status
            (tasks (aq_worker_step t (aq_enqueue b n2 g 0 r2 (aq_enqueue a n1 f 2 r1 qa))) b)
            = Some PENDING) \<and>
         (invoked (aq_worker_step t (aq_enqueue b n2 g 2 r2 (aq_enqueue a n1 f 0 r1 qa)))
            = invoked qa @ [b] \<and>
          map_option status
            (tasks (aq_worker_step t (aq_enqueue b n2 g 2 r2 (aq_enqueue a n1 f 0 r1 qa))) a)
            = Some PENDING) \<and>
         queue (tq_enqueue a now f' p r st') = queue st' @ [a] \<and>
         invoked (tq_worker_step t st) = invoked st @ [x] \<and>
         (invoked (tq_worker_step t (tq_enqueue b n2 g' 0 r2 (tq_enqueue a n1 f' 2 r1 qt)))
            = invoked qt @ [a] \<and>
          map_option status
            (tasks (tq_worker_step t (tq_enqueue b n2 g' 0 r2 (tq_enqueue a n1 f' 2 r1 qt))) b)
            = Some PENDING)"
  using aq_runs_highest_priority [OF ne reg, of t]
    aq_first_step [OF idle(1) ids, of t n2 g r2 n1 f r1]
    aq_priority_beats_order [OF idle(1) ids, of t n2 g r2 n1 f r1]
    tq_first_step [OF idle(2) ids, of t n2 g' r2 n1 f' r1]
    tq_head_first [OF fifo, of t]
  by (simp add: aq_enqueue_def tq_enqueue_def)

theorem enqueue_priority_order_witness:
  "queue idle_async = [] \<and> queue idle_pool = [] \<and> ''a'' \<noteq> ''b'' \<and>
   queue (aq_enqueue ''b'' 0 always_raises 2 3 (aq_enqueue ''a'' 0 always_raises 0 3 idle_async))
     = [(0, ''a''), (- 2, ''b'')] \<and>
   tasks (aq_enqueue ''b'' 0 always_raises 2 3
           (aq_enqueue ''a'' 0 always_raises 0 3 idle_async)) ''a'' \<noteq> None \<and>
   tasks (aq_enqueue ''b'' 0 always_raises 2 3
           (aq_enqueue ''a'' 0 always_raises 0 3 idle_async)) ''b'' \<noteq> None \<and>
   queue (tq_enqueue ''b'' 0 always_raises 2 3 (tq_enqueue ''a'' 0 always_raises 0 3 idle_pool))
     = [''a'', ''b''] \<and>
   tasks (tq_enqueue ''b'' 0 always_raises 2 3 (tq_enqueue ''a'' 0 always_raises 0 3 idle_pool)) ''a''
     = Some (new_task ''a'' 0 always_raises 0 3) \<and>
   (\<exists>k i. (k, i) \<in> set (queue (aq_enqueue ''b'' 0 always_raises 2 3
                                (aq_enqueue ''a'' 0 always_raises 0 3 idle_async))) \<and>
      (\<forall>(k', i') \<in> set (queue (aq_enqueue ''b'' 0 always_raises 2 3
                                (aq_enqueue ''a'' 0 always_raises 0 3 idle_async))). - k' \<le> - k) \<and>
      invoked (aq_worker_step (1, 2)
                (aq_enqueue ''b'' 0 always_raises 2 3
                  (aq_enqueue ''a'' 0 always_raises 0 3 idle_async))) = [i]) \<and>
   invoked (aq_worker_step (1, 2)
     (aq_enqueue ''b'' 0 always_raises 2 3 (aq_enqueue ''a'' 0 always_raises 0 3 idle_async)))
     = [''b''] \<and>
   invoked (aq_worker_step (1, 2)
     (aq_enqueue ''b'' 0 always_raises 0 3 (aq_enqueue ''a'' 0 always_raises 2 3 idle_async)))
     = [''a''] \<and>
   invoked (tq_worker_step (1, 2)
     (tq_enqueue ''b'' 0 always_raises 0 3 (tq_enqueue ''a'' 0 always_raises 2 3 idle_pool)))
     = [''a'']"
proof -
  let ?sa = "aq_enqueue ''b'' 0 always_raises 2 3 (aq_enqueue ''a'' 0 always_raises 0 3 idle_async)"
  let ?st = "tq_enqueue ''b'' 0 always_raises 2 3 (tq_enqueue ''a'' 0 always_raises 0 3 idle_pool)"
  have h1: "queue idle_async = []" by (simp add: idle_async_def)
  have h2: "queue idle_pool = []" by (simp add: idle_pool_def)
  have h3: "''a'' \<noteq> ''b''" by simp
  have q: "queue ?sa = [(0, ''a''), (- 2, ''b'')]"
    by (simp add: aq_enqueue_def idle_async_def)
  have h4: "queue ?sa \<noteq> []" by (simp add: q)
  have h5: "\<forall>(k, i) \<in> set (queue ?sa). tasks ?sa i \<noteq> None"
    by (simp add: aq_enqueue_def idle_async_def)
  have h6: "queue ?st = ''a'' # [''b'']"
    by (simp add: tq_enqueue_def idle_pool_def)
  have h7: "tasks ?st ''a'' = Some (new_task ''a'' 0 always_raises 0 3)"
    by (simp add: tq_enqueue_def idle_pool_def)
  have i1: "invoked idle_async = []" by (simp add: idle_async_def)
  have i2: "invoked idle_pool = []" by (simp add: idle_pool_def)
  have i3: "invoked ?sa = []" by (simp add: aq_enqueue_def idle_async_def)
  note inst = enqueue_priority_order [where t = "(1, 2)" and f = always_raises
        and g = always_raises and f' = always_raises and g' = always_raises and now = 0
        and p = 2 and r = 3 and ?n1.0 = 0 and ?n2.0 = 0 and ?r1.0 = 3 and ?r2.0 = 3
        and sa' = idle_async and st' = idle_pool, OF h1 h2 h3 h4 h5 h6 h7]
  show ?thesis
    using h1 h2 h3 q h5 h6 h7 inst
    by (simp add: i1 i2 i3 q)
qed

text \<open>
  C4 as stated fails for the thread-pool design: with a priority-0 task enqueued before
  a priority-2 task, the ready queue holds the two ids in the order of insertion and
  the worker runs the priority-0 task first.
\<close>

theorem pool_runs_low_priority_first:
  "queue (tq_enqueue ''b'' 0 always_raises 2 3 (tq_enqueue ''a'' 0 always_raises 0 3 idle_pool))
     = [''a'', ''b''] \<and>
   map_option priority
     (tasks (tq_enqueue ''b'' 0 always_raises 2 3 (tq_enqueue ''a'' 0 always_raises 0 3 idle_pool)) ''a'')
     = Some 0 \<and>
   map_option priority
     (tasks (tq_enqueue ''b'' 0 always_raises 2 3 (tq_enqueue ''a'' 0 always_raises 0 3 idle_pool)) ''b'')
     = Some 2 \<and>
   invoked (tq_worker_step (1, 2)
     (tq_enqueue ''b'' 0 always_raises 2 3 (tq_enqueue ''a'' 0 always_raises 0 3 idle_pool)))
     = [''a'']"
  by (simp add: tq_worker_step_def tq_enqueue_def new_task_def Let_def idle_pool_def
        no_tasks_def always_raises_def)

subsection \<open>A task that always fails\<close>

lemma wt_queue_upd [simp]: "wt (s\<lparr>queue := q\<rparr>) a = wt s a"
  by (simp add: wt_def)

lemma wt_run_task_le: "wt (run_task r t tid s) b \<le> wt s b"
proof (cases "b = tid")
  case False
  then show ?thesis by (simp add: wt_def)
next
  case True
  show ?thesis
  proof (cases "tasks s tid")
    case None
    then show ?thesis by (simp add: run_task_None)
  next
    case (Some task)
    from run_task_fields [OF Some, of r t] obtain task' where
      "tasks (run_task r t tid s) tid = Some task'"
      "max_retries task' = max_retries task"
      "retry_count task' =
         (case fst (func task (env s)) of Inr v \<Rightarrow> retry_count task
          | Inl m \<Rightarrow> retry_count task + 1)"
      by blast
    then show ?thesis using True Some by (simp add: wt_def split: sum.splits)
  qed
qed

lemma wt_requeued:
  assumes "requeued tid s"
  shows "Suc (wt (run_task r t tid s) tid) \<le> wt s tid"
proof -
  from assms obtain task m where
    tk: "tasks s tid = Some task" and out: "fst (func task (env s)) = Inl m"
    and lt: "retry_count task + 1 < max_retries task"
    by (auto simp: requeued_def split: option.splits sum.splits)
  from run_task_fields [OF tk, of r t] obtain task' where
    "tasks (run_task r t tid s) tid = Some task'"
    "max_retries task' = max_retries task"
    "retry_count task' = retry_count task + 1"
    using out by auto
  then show ?thesis using tk lt by (simp add: wt_def)
qed

lemma sum_list_Suc_mono:
  "(\<And>y. g' y \<le> (g y :: nat)) \<Longrightarrow>
   sum_list (map (\<lambda>x. Suc (g' x)) xs) \<le> sum_list (map (\<lambda>x. Suc (g x)) xs)"
  by (induction xs) (simp_all add: add_mono)

lemma mu_take_item:
  assumes x: "x \<in> set (queue s)" and k: "key r = key x"
  shows "mu key (take_item key x r t s) < mu key s"
proof -
  let ?s0 = "s\<lparr>queue := remove1 x (queue s)\<rparr>"
  let ?s' = "run_task r t (key x) ?s0"
  let ?rest = "remove1 x (queue s)"
  have le: "\<And>y. wt ?s' (key y) \<le> wt s (key y)"
    using wt_run_task_le [of r t "key x" ?s0] by simp
  have rest: "sum_list (map (\<lambda>y. Suc (wt ?s' (key y))) ?rest)
                \<le> sum_list (map (\<lambda>y. Suc (wt s (key y))) ?rest)"
    by (rule sum_list_Suc_mono) (rule le)
  have whole: "mu key s = Suc (wt s (key x)) + sum_list (map (\<lambda>y. Suc (wt s (key y))) ?rest)"
    unfolding mu_def using sum_list_map_remove1 [OF x, of "\<lambda>y. Suc (wt s (key y))"] by simp
  show ?thesis
  proof (cases "requeued (key x) ?s0")
    case True
    have "Suc (wt ?s' (key x)) \<le> wt s (key x)"
      using wt_requeued [OF True, of r t] by simp
    moreover have "mu key ?s' = sum_list (map (\<lambda>y. Suc (wt ?s' (key y))) ?rest)
                                  + Suc (wt ?s' (key r))"
      using True by (simp add: mu_def run_task_queue)
    ultimately show ?thesis using rest whole k by (simp add: take_item_def)
  next
    case False
    then have "mu key ?s' = sum_list (map (\<lambda>y. Suc (wt ?s' (key y))) ?rest)"
      by (simp add: mu_def run_task_queue)
    then show ?thesis using rest whole by (simp add: take_item_def)
  qed
qed

lemma take_item_other:
  assumes x: "x \<in> set (queue s)" and k: "key r = key x" and ne: "key x \<noteq> a"
  shows "tasks (take_item key x r t s) a = tasks s a"
    and "count_list (invoked (take_item key x r t s)) a = count_list (invoked s) a"
    and "filter (\<lambda>y. key y = a) (queue (take_item key x r t s)) =
         filter (\<lambda>y. key y = a) (queue s)"
proof -
  show "tasks (take_item key x r t s) a = tasks s a"
    using ne by (simp add: take_item_def)
  show "count_list (invoked (take_item key x r t s)) a = count_list (invoked s) a"
    using ne by (simp add: take_item_def run_task_invoked)
  have f: "filter (\<lambda>y. key y = a) (remove1 x (queue s)) = filter (\<lambda>y. key y = a) (queue s)"
    using ne by (simp add: filter_remove1 remove1_idem)
  have q: "queue (take_item key x r t s) =
             remove1 x (queue s) @
               (if requeued (key x) (s\<lparr>queue := remove1 x (queue s)\<rparr>) then [r] else [])"
    by (simp add: take_item_def run_task_queue)
  have kr: "key r \<noteq> a" using ne k by simp
  have g1: "filter (\<lambda>y. key y = a) [r] = []" using kr by simp
  have g2: "filter (\<lambda>y. key y = a) (queue (take_item key x r t s)) =
        filter (\<lambda>y. key y = a) (remove1 x (queue s)) @
        (if requeued (key x) (s\<lparr>queue := remove1 x (queue s)\<rparr>)
         then filter (\<lambda>y. key y = a) [r] else [])"
    unfolding q
    by (simp only: filter_append if_distrib [of "filter (\<lambda>y. key y = a)"] filter.simps)
  show "filter (\<lambda>y. key y = a) (queue (take_item key x r t s)) =
         filter (\<lambda>y. key y = a) (queue s)"
    unfolding g2 g1 f by simp
qed

lemma inv_step_other:
  assumes x: "x \<in> set (queue s)" and k: "key r = key x" and ne: "key x \<noteq> a"
  shows "waiting key a N c s \<Longrightarrow> waiting key a N c (take_item key x r t s)"
    and "finished key a N c s \<Longrightarrow> finished key a N c (take_item key x r t s)"
proof -
  note o = take_item_other [OF x k ne, of t]
  show "waiting key a N c s \<Longrightarrow> waiting key a N c (take_item key x r t s)"
    unfolding waiting_def by (simp add: o)
  show "finished key a N c s \<Longrightarrow> finished key a N c (take_item key x r t s)"
    unfolding finished_def by (simp add: o)
qed

lemma inv_step_self:
  assumes x: "x \<in> set (queue s)" and k: "key r = key x" and eq: "key x = a"
      and w: "waiting key a N c s"
  shows "waiting key a N c (take_item key x r t s) \<or> finished key a N c (take_item key x r t s)"
proof -
  let ?s0 = "s\<lparr>queue := remove1 x (queue s)\<rparr>"
  let ?s' = "run_task r t a ?s0"
  from w obtain task where
    tk: "tasks s a = Some task" and mr: "max_retries task = N"
    and raises: "\<forall>e. \<exists>m. fst (func task e) = Inl m"
    and one: "length (filter (\<lambda>y. key y = a) (queue s)) = 1"
    and rc: "0 \<le> retry_count task" "retry_count task < N"
    and cnt: "int (count_list (invoked s) a) = c + retry_count task"
    unfolding waiting_def by blast
  have tk0: "tasks ?s0 a = Some task" using tk by simp
  obtain m where out: "fst (func task (env ?s0)) = Inl m" using raises by blast
  from run_task_fields [OF tk0, of r t] out obtain task' where
    t': "tasks ?s' a = Some task'" and f': "func task' = func task"
    and m': "max_retries task' = N" and r': "retry_count task' = retry_count task + 1"
    and s': "status task' = (if retry_count task + 1 < N then RETRYING else FAILED)"
    using mr by auto
  have inv': "int (count_list (invoked ?s') a) = c + retry_count task'"
    using cnt r' tk0 by (simp add: run_task_invoked)
  have rq: "requeued a ?s0 = (retry_count task + 1 < N)"
    using tk0 out mr by (simp add: requeued_def)
  have "x \<in> set (filter (\<lambda>y. key y = a) (queue s))" using x eq by simp
  then have "remove1 x (filter (\<lambda>y. key y = a) (queue s)) = []"
    using one by (cases "filter (\<lambda>y. key y = a) (queue s)") auto
  then have rest: "filter (\<lambda>y. key y = a) (remove1 x (queue s)) = []"
    by (simp add: filter_remove1)
  show ?thesis
  proof (cases "retry_count task + 1 < N")
    case True
    have "length (filter (\<lambda>y. key y = a) (queue ?s')) = 1"
      using rest rq True k eq by (simp add: run_task_queue)
    then have "waiting key a N c ?s'"
      unfolding waiting_def using t' f' m' r' s' inv' raises rc True by simp
    then show ?thesis using eq by (simp add: take_item_def)
  next
    case False
    then have n: "retry_count task' = N" using rc r' by simp
    have "filter (\<lambda>y. key y = a) (queue ?s') = []"
      using rest rq False by (simp add: run_task_queue)
    then have "finished key a N c ?s'"
      unfolding finished_def using t' m' s' inv' n False by simp
    then show ?thesis using eq by (simp add: take_item_def)
  qed
qed

lemma inv_step:
  assumes x: "x \<in> set (queue s)" and k: "key r = key x"
      and inv: "waiting key a N c s \<or> finished key a N c s"
  shows "waiting key a N c (take_item key x r t s) \<or> finished key a N c (take_item key x r t s)"
proof (cases "key x = a")
  case False
  then show ?thesis using inv inv_step_other [OF x k False] by blast
next
  case True
  have "\<not> finished key a N c s"
  proof
    assume "finished key a N c s"
    then have "filter (\<lambda>y. key y = a) (queue s) = []" unfolding finished_def by blast
    then show False using x True by (simp add: filter_empty_conv)
  qed
  then show ?thesis using inv inv_step_self [OF x k True] by blast
qed

lemma aq_worker_iterate: "aq_worker ts s = iterate_worker aq_worker_step ts s"
  by (induction ts arbitrary: s) simp_all

lemma tq_worker_iterate: "tq_worker ts s = iterate_worker tq_worker_step ts s"
  by (induction ts arbitrary: s) simp_all

lemma mu_zero: "mu key s = 0 \<Longrightarrow> queue s = []"
  by (cases "queue s") (simp_all add: mu_def)

lemma waiting_nonempty: "waiting key a N c s \<Longrightarrow> queue s \<noteq> []"
  unfolding waiting_def by auto

lemma take_item_running [simp]: "running (take_item key x r t s) = running s"
  by (simp add: take_item_def)

lemma drain:
  assumes step_empty: "\<And>t s. queue s = [] \<Longrightarrow> step t s = s"
      and step_take: "\<And>t s. queue s \<noteq> [] \<Longrightarrow>
             \<exists>x r. x \<in> set (queue s) \<and> key r = key x \<and> step t s = take_item key x r t s"
  shows "running s \<Longrightarrow> waiting key a N c s \<or> finished key a N c s \<Longrightarrow>
         mu key s \<le> length ts \<Longrightarrow> finished key a N c (iterate_worker step ts s)"
proof (induction ts arbitrary: s)
  case Nil
  then have "queue s = []" by (simp add: mu_zero)
  then have "\<not> waiting key a N c s" using waiting_nonempty [of key a N c s] by blast
  with Nil.prems(2) show ?case by simp
next
  case (Cons t ts)
  show ?case
  proof (cases "queue s = []")
    case True
    then have "mu key s = 0" by (simp add: mu_def)
    then show ?thesis
      using Cons.IH [of s] Cons.prems step_empty [OF True, of t] by simp
  next
    case False
    from step_take [OF False, of t] obtain x r where
      x: "x \<in> set (queue s)" and k: "key r = key x"
      and st: "step t s = take_item key x r t s" by blast
    have "mu key (step t s) < mu key s" using mu_take_item [OF x k] st by simp
    then have m: "mu key (step t s) \<le> length ts" using Cons.prems(3) by simp
    have i: "waiting key a N c (step t s) \<or> finished key a N c (step t s)"
      using inv_step [OF x k Cons.prems(2)] st by simp
    have r: "running (step t s)" using Cons.prems(1) st by simp
    show ?thesis using Cons.IH [OF r i m] Cons.prems(1) by simp
  qed
qed

lemma aq_drain:
  "running s \<Longrightarrow> waiting snd a N c s \<Longrightarrow> mu snd s \<le> length ts \<Longrightarrow>
   finished snd a N c (aq_worker ts s)"
  unfolding aq_worker_iterate
proof (rule drain [where key = snd])
  fix t and s :: "('a, 'b) AsyncQueue"
  assume "queue s = []"
  then show "aq_worker_step t s = s" by (simp add: aq_step_take)
next
  fix t and s :: "('a, 'b) AsyncQueue"
  assume ne: "queue s \<noteq> []"
  then have "Min (set (queue s)) \<in> set (queue s)" by (intro Min_in) auto
  then show "\<exists>x r. x \<in> set (queue s) \<and> snd r = snd x \<and>
                aq_worker_step t s = take_item snd x r t s"
    using ne
    by (intro exI [of _ "Min (set (queue s))"] exI [of _ "(- 1, snd (Min (set (queue s))))"])
       (simp add: aq_step_take)
qed auto

lemma tq_drain:
  "running s \<Longrightarrow> waiting (\<lambda>x. x) a N c s \<Longrightarrow> mu (\<lambda>x. x) s \<le> length ts \<Longrightarrow>
   finished (\<lambda>x. x) a N c (tq_worker ts s)"
  unfolding tq_worker_iterate
proof (rule drain [where key = "\<lambda>x. x"])
  fix t and s :: "('a, 'b) ThreadPoolQueue"
  assume "queue s = []"
  then show "tq_worker_step t s = s" by (simp add: tq_step_take)
next
  fix t and s :: "('a, 'b) ThreadPoolQueue"
  assume ne: "queue s \<noteq> []"
  then show "\<exists>x r. x \<in> set (queue s) \<and> r = x \<and>
                tq_worker_step t s = take_item (\<lambda>x. x) x r t s"
    by (intro exI [of _ "hd (queue s)"]) (simp add: tq_step_take)
qed auto

lemma aq_enqueue_waiting:
  assumes "1 \<le> N" and "\<forall>e. \<exists>m. fst (f e) = Inl m" and "a \<notin> snd ` set (queue s)"
  shows "waiting snd a N (int (count_list (invoked s) a)) (aq_enqueue a now f p N s)"
proof -
  have "filter (\<lambda>x. snd x = a) (queue s) = []"
    using assms(3) by (auto simp: filter_empty_conv)
  then show ?thesis
    using assms(1,2) by (simp add: waiting_def aq_enqueue_def new_task_def)
qed

lemma tq_enqueue_waiting:
  assumes "1 \<le> N" and "\<forall>e. \<exists>m. fst (f e) = Inl m" and "a \<notin> set (queue s)"
  shows "waiting (\<lambda>x. x) a N (int (count_list (invoked s) a)) (tq_enqueue a now f p N s)"
proof -
  have "filter (\<lambda>x. x = a) (queue s) = []"
    using assms(3) by (auto simp: filter_empty_conv)
  then show ?thesis
    using assms(1,2) by (simp add: waiting_def tq_enqueue_def new_task_def)
qed

lemma finished_fields:
  assumes "finished key a N (int c) s" and "0 \<le> N"
  shows "map_option status (tasks s a) = Some FAILED \<and>
         map_option retry_count (tasks s a) = Some N \<and>
         count_list (invoked s) a = c + nat N"
  using assms unfolding finished_def by auto

text \<open>
  C1 (as amended). In either design, for a task enqueued on a running queue under a
  fresh id with \<open>max_retries = N\<close>, \<open>N \<ge> 1\<close>, whose work function raises on every
  invocation: after enough iterations of the worker loop, and from then on, the task
  has status FAILED and \<open>retry_count = N\<close>, and its work function has been invoked
  exactly \<open>N\<close> times.
\<close>

theorem always_failing_task_ends_failed:
  assumes N: "1 \<le> N" and raises: "\<forall>e. \<exists>m. fst (f e) = Inl m"
      and qa: "running qa" "a \<notin> snd ` set (queue qa)"
      and qt: "running qt" "a \<notin> set (queue qt)"
  shows "\<exists>n. \<forall>ts. n \<le> length ts \<longrightarrow>
           (map_option status (tasks (aq_worker ts (aq_enqueue a now f p N qa)) a) = Some FAILED \<and>
            map_option retry_count (tasks (aq_worker ts (aq_enqueue a now f p N qa)) a) = Some N \<and>
            count_list (invoked (aq_worker ts (aq_enqueue a now f p N qa))) a =
              count_list (invoked qa) a + nat N) \<and>
           (map_option status (tasks (tq_worker ts (tq_enqueue a now f p N qt)) a) = Some FAILED \<and>
            map_option retry_count (tasks (tq_worker ts (tq_enqueue a now f p N qt)) a) = Some N \<and>
            count_list (invoked (tq_worker ts (tq_enqueue a now f p N qt))) a =
              count_list (invoked qt) a + nat N)"
proof -
  let ?sa = "aq_enqueue a now f p N qa"
  let ?st = "tq_enqueue a now f p N qt"
  have ra: "running ?sa" using qa(1) by (simp add: aq_enqueue_def)
  have rt: "running ?st" using qt(1) by (simp add: tq_enqueue_def)
  have N0: "0 \<le> N" using N by simp
  note wa = aq_enqueue_waiting [OF N raises qa(2), of now p]
  note wp = tq_enqueue_waiting [OF N raises qt(2), of now p]
  show ?thesis
  proof (intro exI [of _ "max (mu snd ?sa) (mu (\<lambda>x. x) ?st)"] allI impI)
    fix ts :: "(int \<times> int) list"
    assume len: "max (mu snd ?sa) (mu (\<lambda>x. x) ?st) \<le> length ts"
    then have la: "mu snd ?sa \<le> length ts" and lt: "mu (\<lambda>x. x) ?st \<le> length ts" by simp_all
    from finished_fields [OF aq_drain [OF ra wa la] N0]
         finished_fields [OF tq_drain [OF rt wp lt] N0]
    show "(map_option status (tasks (aq_worker ts ?sa) a) = Some FAILED \<and>
            map_option retry_count (tasks (aq_worker ts ?sa) a) = Some N \<and>
            count_list (invoked (aq_worker ts ?sa)) a = count_list (invoked qa) a + nat N) \<and>
           (map_option status (tasks (tq_worker ts ?st) a) = Some FAILED \<and>
            map_option retry_count (tasks (tq_worker ts ?st) a) = Some N \<and>
            count_list (invoked (tq_worker ts ?st)) a = count_list (invoked qt) a + nat N)"
      by (simp add: aq_enqueue_def tq_enqueue_def)
  qed
qed

theorem always_failing_task_ends_failed_witness:
  "(1::int) \<le> 3 \<and> (\<forall>e. \<exists>m. fst (always_raises e) = Inl m) \<and>
   running idle_async \<and> ''a'' \<notin> snd ` set (queue idle_async) \<and>
   running idle_pool \<and> ''a'' \<notin> set (queue idle_pool) \<and>
   (\<exists>n. \<forall>ts. n \<le> length ts \<longrightarrow>
      (map_option status (tasks (aq_worker ts (aq_enqueue ''a'' 0 always_raises 0 3 idle_async)) ''a'')
         = Some FAILED \<and>
       map_option retry_count (tasks (aq_worker ts (aq_enqueue ''a'' 0 always_raises 0 3 idle_async)) ''a'')
         = Some 3 \<and>
       count_list (invoked (aq_worker ts (aq_enqueue ''a'' 0 always_raises 0 3 idle_async))) ''a'' = 3) \<and>
      (map_option status (tasks (tq_worker ts (tq_enqueue ''a'' 0 always_raises 0 3 idle_pool)) ''a'')
         = Some FAILED \<and>
       map_option retry_count (tasks (tq_worker ts (tq_enqueue ''a'' 0 always_raises 0 3 idle_pool)) ''a'')
         = Some 3 \<and>
       count_list (invoked (tq_worker ts (tq_enqueue ''a'' 0 always_raises 0 3 idle_pool))) ''a'' = 3))"
proof -
  have h1: "(1::int) \<le> 3" by simp
  have h2: "\<forall>e. \<exists>m. fst (always_raises e) = Inl m" by (simp add: always_raises_def)
  have h3: "running idle_async" by (simp add: idle_async_def)
  have h4: "''a'' \<notin> snd ` set (queue idle_async)" by (simp add: idle_async_def)
  have h5: "running idle_pool" by (simp add: idle_pool_def)
  have h6: "''a'' \<notin> set (queue idle_pool)" by (simp add: idle_pool_def)
  have i1: "count_list (invoked idle_async) ''a'' = 0" by (simp add: idle_async_def)
  have i2: "count_list (invoked idle_pool) ''a'' = 0" by (simp add: idle_pool_def)
  show ?thesis
    using h1 h2 h3 h4 h5 h6 always_failing_task_ends_failed [OF h1 h2 h3 h4 h5 h6, of 0 0]
    by (simp add: i1 i2)
qed

text \<open>
  C1 as stated fails in the number of invocations: with \<open>max_retries = 3\<close> the task is
  FAILED with \<open>retry_count = 3\<close> after three invocations, not four; the ready queue is
  empty then, so no further invocation follows.
\<close>

theorem three_retries_three_invocations:
  "map_option status
     (tasks (aq_worker [(1, 2), (3, 4), (5, 6), (7, 8), (9, 10)]
              (aq_enqueue ''a'' 0 always_raises 0 3 idle_async)) ''a'') = Some FAILED \<and>
   map_option retry_count
     (tasks (aq_worker [(1, 2), (3, 4), (5, 6), (7, 8), (9, 10)]
              (aq_enqueue ''a'' 0 always_raises 0 3 idle_async)) ''a'') = Some 3 \<and>
   invoked (aq_worker [(1, 2), (3, 4), (5, 6), (7, 8), (9, 10)]
              (aq_enqueue ''a'' 0 always_raises 0 3 idle_async)) = [''a'', ''a'', ''a''] \<and>
   env (aq_worker [(1, 2), (3, 4), (5, 6), (7, 8), (9, 10)]
              (aq_enqueue ''a'' 0 always_raises 0 3 idle_async)) = 3 \<and>
   queue (aq_worker [(1, 2), (3, 4), (5, 6), (7, 8), (9, 10)]
              (aq_enqueue ''a'' 0 always_raises 0 3 idle_async)) = [] \<and>
   map_option status
     (tasks (tq_worker [(1, 2), (3, 4), (5, 6), (7, 8), (9, 10)]
              (tq_enqueue ''a'' 0 always_raises 0 3 idle_pool)) ''a'') = Some FAILED \<and>
   invoked (tq_worker [(1, 2), (3, 4), (5, 6), (7, 8), (9, 10)]
              (tq_enqueue ''a'' 0 always_raises 0 3 idle_pool)) = [''a'', ''a'', ''a''] \<and>
   queue (tq_worker [(1, 2), (3, 4), (5, 6), (7, 8), (9, 10)]
              (tq_enqueue ''a'' 0 always_raises 0 3 idle_pool)) = [] \<and>
   length [''a'', ''a'', ''a''] \<noteq> 3 + 1"
  by (simp add: aq_worker_step_def tq_worker_step_def aq_enqueue_def tq_enqueue_def
        pq_get_def new_task_def idle_async_def idle_pool_def no_tasks_def always_raises_def Let_def)

end
